theory Spec2Isabelle
  imports Complex_Main "HOL-Library.AList"
begin

section \<open>JavaScript values\<close>

text \<open>
  The attribute manager of \<^verbatim>\<open>src/core/lib/attribute-manager.js\<close> keeps, for every named
  attribute, a typed array and a few flags, and refills the array from the application's data when
  asked to. The model below follows the class method by method.

  A JavaScript number is a finite value (modelled as a real), \<open>NaN\<close> or one of the infinities.
  The other values an accessor or a default value can hold are kept apart, because
  \<^verbatim>\<open>Number.isFinite\<close> is false on everything that is not a finite number.
\<close>

datatype jsnumber = Fin real | NaN | PosInf | NegInf

datatype jsval = JUndefined | JNull | JBool bool | JNum jsnumber | JStr string | JArr "jsval list"

fun Number_isFinite :: "jsval \<Rightarrow> bool" where
  "Number_isFinite (JNum (Fin x)) = True"
| "Number_isFinite v = False"

text \<open>\<^verbatim>\<open>a < b\<close>, \<^verbatim>\<open>a <= b\<close> and \<^verbatim>\<open>a * b\<close> on numbers: every comparison with \<open>NaN\<close> is false.\<close>

fun js_lt :: "jsnumber \<Rightarrow> jsnumber \<Rightarrow> bool" where
  "js_lt (Fin x) (Fin y) = (x < y)"
| "js_lt NaN b = False"
| "js_lt a NaN = False"
| "js_lt a NegInf = False"
| "js_lt PosInf b = False"
| "js_lt a b = True"

fun js_le :: "jsnumber \<Rightarrow> jsnumber \<Rightarrow> bool" where
  "js_le (Fin x) (Fin y) = (x \<le> y)"
| "js_le NaN b = False"
| "js_le a NaN = False"
| "js_le NegInf b = True"
| "js_le a PosInf = True"
| "js_le a b = False"

fun js_sign :: "jsnumber \<Rightarrow> int" where
  "js_sign (Fin x) = (if x < 0 then -1 else if x = 0 then 0 else 1)"
| "js_sign PosInf = 1"
| "js_sign NegInf = -1"
| "js_sign NaN = 0"

fun js_times :: "jsnumber \<Rightarrow> jsnumber \<Rightarrow> jsnumber" where
  "js_times (Fin x) (Fin y) = Fin (x * y)"
| "js_times NaN b = NaN"
| "js_times a NaN = NaN"
| "js_times a b =
     (if js_sign a * js_sign b = 0 then NaN else if js_sign a * js_sign b > 0 then PosInf else NegInf)"

text \<open>\<^verbatim>\<open>a / b\<close> for two integer-valued numbers (a length and a size): division by zero gives an
  infinity or \<open>NaN\<close>, never an exception.\<close>

definition js_div_int :: "int \<Rightarrow> int \<Rightarrow> jsnumber" where
  "js_div_int a b =
     (if b = 0 then (if a = 0 then NaN else if a > 0 then PosInf else NegInf)
      else Fin (real_of_int a / real_of_int b))"

text \<open>\<^verbatim>\<open>Array.isArray(v) ? v : [v]\<close>, and \<^verbatim>\<open>v[k]\<close> on the resulting array (\<open>undefined\<close> beyond
  its end).\<close>

fun toComponents :: "jsval \<Rightarrow> jsval list" where
  "toComponents (JArr vs) = vs"
| "toComponents v = [v]"

definition component :: "jsval list \<Rightarrow> nat \<Rightarrow> jsval" where
  "component vs k = (if k < length vs then vs ! k else JUndefined)"

fun join :: "string \<Rightarrow> string list \<Rightarrow> string" where
  "join sep [] = []"
| "join sep [s] = s"
| "join sep (s # t # ss) = s @ sep @ join sep (t # ss)"

section \<open>Typed arrays and the store\<close>

text \<open>
  Buffers are typed arrays. The code compares them by reference (\<^verbatim>\<open>attribute.value !== buffer\<close>)
  and the application may hand the same array to several attributes, so arrays live in a store and
  attributes hold addresses. The store is a list, an address is an index into it, and
  \<^verbatim>\<open>new ArrayType(n)\<close> appends a zero-filled array, whose address is therefore fresh. An address
  outside the store stands for a value that is not a typed array.

  What a typed array does to a value stored into it (\<^verbatim>\<open>ToNumber\<close>, then rounding to the element
  type) belongs to the JavaScript runtime and not to this repository: it is the parameter \<open>conv\<close>
  of the functions below. A store at an index outside the array is ignored, as typed arrays do.
\<close>

datatype glType =
    GL_FLOAT | GL_UNSIGNED_SHORT | GL_UNSIGNED_SHORT_5_6_5 | GL_UNSIGNED_SHORT_4_4_4_4
  | GL_UNSIGNED_SHORT_5_5_5_1 | GL_UNSIGNED_INT | GL_UNSIGNED_BYTE | GL_BYTE | GL_SHORT | GL_INT
  | GL_OTHER

datatype arrayType =
    Float32Array | Uint16Array | Uint32Array | Uint8ClampedArray | Uint8Array | Int8Array
  | Int16Array | Int32Array

datatype error = Error string | AssertionError string | TypeError string | RangeError string

datatype 'w outcome = Done 'w | Thrown error 'w

text \<open>The state a call leaves behind, whether it returned or threw.\<close>

fun stateOf :: "'w outcome \<Rightarrow> 'w" where
  "stateOf (Done w) = w"
| "stateOf (Thrown e w) = w"

fun glArrayFromType :: "glType \<Rightarrow> bool \<Rightarrow> error + arrayType" where
  "glArrayFromType GL_FLOAT clamped = Inr Float32Array"
| "glArrayFromType GL_UNSIGNED_SHORT clamped = Inr Uint16Array"
| "glArrayFromType GL_UNSIGNED_SHORT_5_6_5 clamped = Inr Uint16Array"
| "glArrayFromType GL_UNSIGNED_SHORT_4_4_4_4 clamped = Inr Uint16Array"
| "glArrayFromType GL_UNSIGNED_SHORT_5_5_5_1 clamped = Inr Uint16Array"
| "glArrayFromType GL_UNSIGNED_INT clamped = Inr Uint32Array"
| "glArrayFromType GL_UNSIGNED_BYTE clamped = Inr (if clamped then Uint8ClampedArray else Uint8Array)"
| "glArrayFromType GL_BYTE clamped = Inr Int8Array"
| "glArrayFromType GL_SHORT clamped = Inr Int16Array"
| "glArrayFromType GL_INT clamped = Inr Int32Array"
| "glArrayFromType GL_OTHER clamped = Inl (Error ''Failed to deduce type from array'')"

fun arrayTypeName :: "arrayType \<Rightarrow> string" where
  "arrayTypeName Float32Array = ''Float32Array''"
| "arrayTypeName Uint16Array = ''Uint16Array''"
| "arrayTypeName Uint32Array = ''Uint32Array''"
| "arrayTypeName Uint8ClampedArray = ''Uint8ClampedArray''"
| "arrayTypeName Uint8Array = ''Uint8Array''"
| "arrayTypeName Int8Array = ''Int8Array''"
| "arrayTypeName Int16Array = ''Int16Array''"
| "arrayTypeName Int32Array = ''Int32Array''"

record typedArray =
  arrayType :: arrayType
  elems :: "jsnumber list"

type_synonym addr = nat
type_synonym store = "typedArray list"
type_synonym conversion = "arrayType \<Rightarrow> jsval \<Rightarrow> jsnumber"

definition deref :: "store \<Rightarrow> addr \<Rightarrow> typedArray option" where
  "deref h b = (if b < length h then Some (h ! b) else None)"

definition allocate :: "arrayType \<Rightarrow> nat \<Rightarrow> store \<Rightarrow> store \<times> addr" where
  "allocate T len h = (h @ [\<lparr>arrayType = T, elems = replicate len (Fin 0)\<rparr>], length h)"

definition instanceOf :: "store \<Rightarrow> addr \<Rightarrow> arrayType \<Rightarrow> bool" where
  "instanceOf h b T = (case deref h b of None \<Rightarrow> False | Some t \<Rightarrow> arrayType t = T)"

definition taStore :: "conversion \<Rightarrow> arrayType \<Rightarrow> jsnumber list \<Rightarrow> int \<Rightarrow> jsval \<Rightarrow> jsnumber list" where
  "taStore conv T es i v = (if 0 \<le> i \<and> nat i < length es then es[nat i := conv T v] else es)"

definition writeElems :: "store \<Rightarrow> addr \<Rightarrow> (arrayType \<Rightarrow> jsnumber list \<Rightarrow> jsnumber list) \<Rightarrow> store" where
  "writeElems h b f =
     (if b < length h then h[b := (h ! b)\<lparr>elems := f (arrayType (h ! b)) (elems (h ! b))\<rparr>] else h)"

section \<open>Attributes and the manager\<close>

text \<open>
  An attribute's \<^verbatim>\<open>accessor\<close> is a string, an array of strings, or absent. Its \<^verbatim>\<open>update\<close> is a
  function or absent. A bulk updater is modelled by what it does to the typed array it is given:
  from the data, the instance count and the array's current contents it yields the stores it
  performs, in order (the \<^verbatim>\<open>props\<close> and the \<^verbatim>\<open>this\<close> context it is called with are part of the
  function). An updater that reassigns fields of the attribute object is outside the model.
\<close>

datatype accessor = AccNone | AccStr string | AccArr "string list"

type_synonym 'r updater = "'r list \<Rightarrow> int \<Rightarrow> jsnumber list \<Rightarrow> (int \<times> jsval) list"

record 'r attribute =
  attr_size :: int
  attr_type :: "glType option"
  attr_update :: "'r updater option"
  attr_accessor :: accessor
  attr_noAlloc :: bool
  attr_auto :: bool
  attr_defaultValue :: jsval
  attr_isIndexed :: bool
  attr_isExternalBuffer :: bool
  attr_needsAlloc :: bool
  attr_needsUpdate :: bool
  attr_changed :: bool
  attr_value :: "addr option"

text \<open>What the application passes to \<^verbatim>\<open>add\<close> for one attribute.\<close>

record 'r descriptor =
  d_size :: "int option"
  d_elements :: bool
  d_isIndexed :: bool
  d_type :: "glType option"
  d_update :: "'r updater option"
  d_accessor :: accessor
  d_noAlloc :: bool
  d_auto :: bool
  d_defaultValue :: jsval
  d_value :: "addr option"

text \<open>
  The hooks of \<^verbatim>\<open>logFunctions\<close>, the timer and the application's callbacks leave a trace: every
  call appends an event.
\<close>

datatype logMessage =
    Invalidated "string list"
  | Allocated string int
  | Updating string int
  | MissingUpdate string

datatype 'r event =
    OnUpdateStart int
  | OnUpdateEnd int
  | OnLog logMessage
  | StatsTimeStart
  | StatsTimeEnd
  | UpdaterCall string
  | AccessorCall string 'r

text \<open>
  The manager (\<open>managerId\<close> to \<open>needsRedraw\<close>) together with the store and the trace. Objects
  are used as dictionaries whose keys are visited in insertion order: they are association lists.
  The manager is one built without transition options, so \<^verbatim>\<open>attributeTranstionManger\<close> is null.
\<close>

record 'r world =
  managerId :: string
  attributes :: "(string \<times> 'r attribute) list"
  updateTriggers :: "(string \<times> string list) list"
  allocedInstances :: int
  needsRedraw :: bool
  heap :: store
  events :: "'r event list"

definition newManager :: "string \<Rightarrow> store \<Rightarrow> 'r world" where
  "newManager ident h =
     \<lparr>managerId = ident, attributes = [], updateTriggers = [], allocedInstances = -1,
      needsRedraw = True, heap = h, events = []\<rparr>"

definition emit :: "'r event \<Rightarrow> 'r world \<Rightarrow> 'r world" where
  "emit ev w = w\<lparr>events := events w @ [ev]\<rparr>"

text \<open>Truthiness of \<^verbatim>\<open>attribute.accessor\<close>, the names it stands for as update triggers, and the
  property key \<^verbatim>\<open>props[accessor]\<close> reads.\<close>

fun accessorTruthy :: "accessor \<Rightarrow> bool" where
  "accessorTruthy AccNone = False"
| "accessorTruthy (AccStr s) = (s \<noteq> [])"
| "accessorTruthy (AccArr ss) = True"

fun accessorNames :: "accessor \<Rightarrow> string list" where
  "accessorNames AccNone = []"
| "accessorNames (AccStr s) = [s]"
| "accessorNames (AccArr ss) = ss"

fun accessorKey :: "accessor \<Rightarrow> string" where
  "accessorKey AccNone = ''undefined''"
| "accessorKey (AccStr s) = s"
| "accessorKey (AccArr ss) = join '','' ss"

fun isAccStr :: "accessor \<Rightarrow> bool" where
  "isAccStr (AccStr s) = True"
| "isAccStr a = False"

definition hasComputation :: "'r attribute \<Rightarrow> bool" where
  "hasComputation a = (attr_update a \<noteq> None \<or> accessorTruthy (attr_accessor a))"

subsection \<open>A loop over the attributes\<close>

text \<open>
  \<^verbatim>\<open>for (const attributeName in attributes)\<close> with a body that changes the attribute it visits and
  the rest of the world, and may throw. When the body throws, the attributes already visited keep
  their changes and the others have not been touched.
\<close>

fun forAttributes ::
  "(string \<Rightarrow> 'r attribute \<Rightarrow> 'r world \<Rightarrow> ('r attribute \<times> 'r world) outcome) \<Rightarrow>
   (string \<times> 'r attribute) list \<Rightarrow> (string \<times> 'r attribute) list \<Rightarrow> 'r world \<Rightarrow> 'r world outcome" where
  "forAttributes body visited [] w = Done (w\<lparr>attributes := visited\<rparr>)"
| "forAttributes body visited ((name, a) # rest) w =
     (case body name a w of
        Thrown e (a', w') \<Rightarrow> Thrown e (w'\<lparr>attributes := visited @ (name, a') # rest\<rparr>)
      | Done (a', w') \<Rightarrow> forAttributes body (visited @ [(name, a')]) rest w')"

subsection \<open>Registration\<close>

definition attributeSize :: "'r descriptor \<Rightarrow> int option" where
  "attributeSize d = (if d_elements d then Some 1 else d_size d)"

definition validateAttributeDefinition :: "string \<Rightarrow> int option \<Rightarrow> 'r descriptor \<Rightarrow> error option" where
  "validateAttributeDefinition attributeName sz d =
     (if \<not> (case sz of None \<Rightarrow> False | Some s \<Rightarrow> 1 \<le> s \<and> s \<le> 4)
      then Some (AssertionError (''Attribute definition for '' @ attributeName @ '' invalid size''))
      else if \<not> (d_noAlloc d \<or> d_update d \<noteq> None \<or> isAccStr (d_accessor d))
      then Some (Error (''Attribute '' @ attributeName @ '' missing update or accessor''))
      else None)"

definition attributeData :: "int \<Rightarrow> 'r descriptor \<Rightarrow> 'r attribute" where
  "attributeData s d =
     \<lparr>attr_size = s, attr_type = d_type d, attr_update = d_update d, attr_accessor = d_accessor d,
      attr_noAlloc = d_noAlloc d, attr_auto = d_auto d, attr_defaultValue = d_defaultValue d,
      attr_isIndexed = (d_isIndexed d \<or> d_elements d),
      attr_isExternalBuffer = False, attr_needsAlloc = False, attr_needsUpdate = False,
      attr_changed = False, attr_value = d_value d\<rparr>"

fun newAttributes ::
  "(string \<times> 'r descriptor) list \<Rightarrow> (string \<times> 'r attribute) list \<Rightarrow>
   error + (string \<times> 'r attribute) list" where
  "newAttributes [] acc = Inr acc"
| "newAttributes ((attributeName, d) # rest) acc =
     (case validateAttributeDefinition attributeName (attributeSize d) d of
        Some e \<Rightarrow> Inl e
      | None \<Rightarrow>
          newAttributes rest
            (AList.update attributeName (attributeData (the (attributeSize d)) d) acc))"

text \<open>\<^verbatim>\<open>Object.assign(target, source)\<close> on dictionaries.\<close>

definition objectAssign :: "(string \<times> 'v) list \<Rightarrow> (string \<times> 'v) list \<Rightarrow> (string \<times> 'v) list" where
  "objectAssign target source = foldl (\<lambda>t (k, v). AList.update k v t) target source"

definition pushTrigger :: "string \<Rightarrow> (string \<times> string list) list \<Rightarrow> string \<Rightarrow> (string \<times> string list) list" where
  "pushTrigger attributeName triggers accessorName =
     AList.update accessorName
       ((case map_of triggers accessorName of None \<Rightarrow> [] | Some l \<Rightarrow> l) @ [attributeName]) triggers"

definition mapUpdateTriggersToAttributes :: "'r world \<Rightarrow> 'r world" where
  "mapUpdateTriggersToAttributes w =
     w\<lparr>updateTriggers :=
         foldl (\<lambda>triggers (attributeName, a).
                  foldl (pushTrigger attributeName)
                    (AList.update attributeName [attributeName] triggers)
                    (accessorNames (attr_accessor a)))
           [] (attributes w)\<rparr>"

text \<open>\<^verbatim>\<open>add\<close> (and \<^verbatim>\<open>_add\<close>, with the deprecated separate map of updaters left empty).
  \<^verbatim>\<open>addInstanced\<close> differs only in the field \<^verbatim>\<open>instanced\<close>, which the manager never reads.\<close>

definition add :: "(string \<times> 'r descriptor) list \<Rightarrow> 'r world \<Rightarrow> 'r world outcome" where
  "add descriptors w =
     (case newAttributes descriptors [] of
        Inl e \<Rightarrow> Thrown e w
      | Inr new \<Rightarrow>
          Done (mapUpdateTriggersToAttributes (w\<lparr>attributes := objectAssign (attributes w) new\<rparr>)))"


subsection \<open>Invalidation\<close>

definition markNeedsUpdate :: "string \<Rightarrow> (string \<times> 'r attribute) list \<Rightarrow> (string \<times> 'r attribute) list" where
  "markNeedsUpdate name attrs =
     map (\<lambda>(k, a). (k, if k = name then a\<lparr>attr_needsUpdate := True\<rparr> else a)) attrs"



subsection \<open>Reading the changed flags\<close>

definition getChangedAttributes ::
  "bool \<Rightarrow> 'r world \<Rightarrow> (string \<times> 'r attribute) list \<times> 'r world" where
  "getChangedAttributes clearChangedFlags w =
     (let visit = (\<lambda>(k, a). (k, if attr_changed a
                                    then a\<lparr>attr_changed := (attr_changed a \<and> \<not> clearChangedFlags)\<rparr>
                                    else a))
      in (map visit (filter (\<lambda>(k, a). attr_changed a) (attributes w)),
          w\<lparr>attributes := map visit (attributes w)\<rparr>))"

subsection \<open>External buffers\<close>

definition checkExternalBuffers :: "(string \<times> addr) list \<Rightarrow> bool \<Rightarrow> 'r world \<Rightarrow> error option" where
  "checkExternalBuffers buffers ignoreUnknownAttributes w =
     (case filter (\<lambda>attributeName. map_of (attributes w) attributeName = None) (map fst buffers) of
        [] \<Rightarrow> None
      | attributeName # others \<Rightarrow>
          if ignoreUnknownAttributes then None
          else Some (Error (''Unknown attribute prop '' @ attributeName)))"

text \<open>
  In \<^verbatim>\<open>_setExternalBuffers\<close> the instance count is read from the manager itself
  (\<^verbatim>\<open>const {attributes, numInstances} = this\<close>). The manager has no such property, so the value is
  \<open>undefined\<close>, and the product \<^verbatim>\<open>numInstances * attribute.size\<close> is \<open>NaN\<close>.
\<close>

definition thisNumInstancesTimes :: "int \<Rightarrow> jsnumber" where
  "thisNumInstancesTimes sz = js_times NaN (Fin (real_of_int sz))"

definition typeOrFloat :: "'r attribute \<Rightarrow> glType" where
  "typeOrFloat a = (case attr_type a of None \<Rightarrow> GL_FLOAT | Some t \<Rightarrow> t)"

definition setExternalBuffer ::
  "(string \<times> addr) list \<Rightarrow> string \<Rightarrow> 'r attribute \<Rightarrow> 'r world \<Rightarrow> ('r attribute \<times> 'r world) outcome" where
  "setExternalBuffer bufferMap attributeName a w =
     (let a0 = a\<lparr>attr_isExternalBuffer := False\<rparr> in
      case map_of bufferMap attributeName of
        None \<Rightarrow> Done (a0, w)
      | Some buffer \<Rightarrow>
          (case glArrayFromType (typeOrFloat a0) True of
             Inl e \<Rightarrow> Thrown e (a0, w)
           | Inr T \<Rightarrow>
               if \<not> instanceOf (heap w) buffer T
               then Thrown (Error (''Attribute '' @ attributeName @ '' must be of type '' @ arrayTypeName T)) (a0, w)
               else if attr_auto a0 \<and>
                       js_le (Fin (real (length (elems (heap w ! buffer)))))
                             (thisNumInstancesTimes (attr_size a0))
               then Thrown (Error ''Attribute prop array must match length and size'') (a0, w)
               else
                 let a1 = a0\<lparr>attr_isExternalBuffer := True, attr_needsUpdate := False\<rparr> in
                 if attr_value a1 \<noteq> Some buffer
                 then Done (a1\<lparr>attr_value := Some buffer, attr_changed := True\<rparr>, w\<lparr>needsRedraw := True\<rparr>)
                 else Done (a1, w)))"

definition setExternalBuffers :: "(string \<times> addr) list \<Rightarrow> 'r world \<Rightarrow> 'r world outcome" where
  "setExternalBuffers bufferMap w = forAttributes (setExternalBuffer bufferMap) [] (attributes w) w"

subsection \<open>Planning\<close>

definition capacityBelow :: "store \<Rightarrow> addr \<Rightarrow> int \<Rightarrow> int \<Rightarrow> bool" where
  "capacityBelow h b sz numInstances =
     (case deref h b of
        None \<Rightarrow> False
      | Some t \<Rightarrow> js_lt (js_div_int (int (length (elems t))) sz) (Fin (real_of_int numInstances)))"

definition analyzeAttribute :: "store \<Rightarrow> int \<Rightarrow> 'r attribute \<Rightarrow> 'r attribute \<times> bool" where
  "analyzeAttribute h numInstances a =
     (if \<not> attr_isExternalBuffer a then
        (let needsAlloc = (case attr_value a of
                             None \<Rightarrow> True
                           | Some b \<Rightarrow> capacityBelow h b (attr_size a) numInstances);
             flagged = (needsAlloc \<and> hasComputation a);
             a' = (if flagged then a\<lparr>attr_needsAlloc := True\<rparr> else a)
         in (a', flagged \<or> attr_needsUpdate a'))
      else (a, False))"

definition analyzeBuffers :: "int \<Rightarrow> 'r world \<Rightarrow> 'r world \<times> bool" where
  "analyzeBuffers numInstances w =
     (w\<lparr>attributes := map (\<lambda>(k, a). (k, fst (analyzeAttribute (heap w) numInstances a))) (attributes w)\<rparr>,
      list_ex (\<lambda>(k, a). snd (analyzeAttribute (heap w) numInstances a)) (attributes w))"

subsection \<open>Filling the buffers\<close>

definition defaultComponents :: "jsval \<Rightarrow> jsval list" where
  "defaultComponents dv =
     (if dv = JUndefined then [JNum (Fin 0), JNum (Fin 0), JNum (Fin 0), JNum (Fin 0)]
      else toComponents dv)"

definition packed :: "jsval list \<Rightarrow> jsval list \<Rightarrow> nat \<Rightarrow> jsval" where
  "packed objectValue defaultValue k =
     (if Number_isFinite (component objectValue k) then component objectValue k
      else component defaultValue k)"

text \<open>The \<^verbatim>\<open>switch (size)\<close> with its fall-through: case 4 stores component 3 and goes on with
  case 3, and so on down to component 0. A size that is none of 4, 3, 2, 1 stores nothing.\<close>

definition packRecord ::
  "conversion \<Rightarrow> arrayType \<Rightarrow> int \<Rightarrow> int \<Rightarrow> jsval list \<Rightarrow> jsval list \<Rightarrow> jsnumber list \<Rightarrow> jsnumber list" where
  "packRecord conv T sz i objectValue defaultValue es =
     (let es3 = (if sz = 4 then taStore conv T es (i + 3) (packed objectValue defaultValue 3) else es);
          es2 = (if sz = 4 \<or> sz = 3
                 then taStore conv T es3 (i + 2) (packed objectValue defaultValue 2) else es3);
          es1 = (if sz = 4 \<or> sz = 3 \<or> sz = 2
                 then taStore conv T es2 (i + 1) (packed objectValue defaultValue 1) else es2)
      in (if sz = 4 \<or> sz = 3 \<or> sz = 2 \<or> sz = 1
          then taStore conv T es1 (i + 0) (packed objectValue defaultValue 0) else es1))"

fun accessorLoop ::
  "conversion \<Rightarrow> arrayType \<Rightarrow> int \<Rightarrow> jsval list \<Rightarrow> ('r \<Rightarrow> jsval) \<Rightarrow> 'r list \<Rightarrow> int \<Rightarrow>
   jsnumber list \<Rightarrow> jsnumber list" where
  "accessorLoop conv T sz defaultValue accessorFunc [] i es = es"
| "accessorLoop conv T sz defaultValue accessorFunc (object # rest) i es =
     accessorLoop conv T sz defaultValue accessorFunc rest (i + sz)
       (packRecord conv T sz i (toComponents (accessorFunc object)) defaultValue es)"

definition updateBufferViaStandardAccessor ::
  "conversion \<Rightarrow> 'r attribute \<Rightarrow> 'r list \<Rightarrow> (string \<Rightarrow> ('r \<Rightarrow> jsval) option) \<Rightarrow> 'r world \<Rightarrow> 'r world outcome" where
  "updateBufferViaStandardAccessor conv a dat props w =
     (let key = accessorKey (attr_accessor a) in
      case props key of
        None \<Rightarrow> Thrown (AssertionError (''accessor \"'' @ key @ ''\" is not a function'')) w
      | Some accessorFunc \<Rightarrow>
          (case attr_value a of
             None \<Rightarrow>
               if dat \<noteq> [] \<and> (attr_size a = 4 \<or> attr_size a = 3 \<or> attr_size a = 2 \<or> attr_size a = 1)
               then Thrown (TypeError ''Cannot set properties of null'')
                      (emit (AccessorCall key (hd dat)) w)
               else Done (w\<lparr>events := events w @ map (AccessorCall key) dat\<rparr>)
           | Some b \<Rightarrow>
               Done (w\<lparr>events := events w @ map (AccessorCall key) dat,
                       heap := writeElems (heap w) b
                                 (\<lambda>T. accessorLoop conv T (attr_size a)
                                        (defaultComponents (attr_defaultValue a)) accessorFunc dat 0)\<rparr>)))"

definition checkAttributeArray :: "store \<Rightarrow> 'r attribute \<Rightarrow> string \<Rightarrow> error option" where
  "checkAttributeArray h a attributeName =
     (case attr_value a of
        None \<Rightarrow> None
      | Some b \<Rightarrow>
          (case deref h b of
             None \<Rightarrow> None
           | Some t \<Rightarrow>
               if length (elems t) \<ge> 4 \<and>
                  \<not> (Number_isFinite (JNum (elems t ! 0)) \<and> Number_isFinite (JNum (elems t ! 1)) \<and>
                     Number_isFinite (JNum (elems t ! 2)) \<and> Number_isFinite (JNum (elems t ! 3)))
               then Some (Error (''Illegal attribute generated for '' @ attributeName))
               else None))"

definition finishUpdate :: "'r attribute \<Rightarrow> 'r world \<Rightarrow> 'r attribute \<times> 'r world" where
  "finishUpdate a w = (a\<lparr>attr_needsUpdate := False, attr_changed := True\<rparr>, w\<lparr>needsRedraw := True\<rparr>)"

definition checked :: "'r attribute \<Rightarrow> string \<Rightarrow> 'r world \<Rightarrow> ('r attribute \<times> 'r world) outcome" where
  "checked a attributeName w =
     (case checkAttributeArray (heap w) a attributeName of
        Some e \<Rightarrow> Thrown e (a, w)
      | None \<Rightarrow> Done (finishUpdate a w))"

text \<open>\<^verbatim>\<open>update.call(context, attribute, {data, props, numInstances})\<close>: the updater's stores go to
  the attribute's buffer. With no buffer, the first store is a \<^verbatim>\<open>TypeError\<close>.\<close>

definition callUpdater ::
  "conversion \<Rightarrow> 'r updater \<Rightarrow> 'r attribute \<Rightarrow> string \<Rightarrow> int \<Rightarrow> 'r list \<Rightarrow> 'r world \<Rightarrow> 'r world outcome" where
  "callUpdater conv upd a attributeName numInstances dat w =
     (let w1 = emit (UpdaterCall attributeName) w in
      case attr_value a of
        None \<Rightarrow>
          if upd dat numInstances [] \<noteq> []
          then Thrown (TypeError ''Cannot set properties of null'') w1
          else Done w1
      | Some b \<Rightarrow>
          Done (w1\<lparr>heap := writeElems (heap w1) b
                              (\<lambda>T es. foldl (\<lambda>es' (i, v). taStore conv T es' i v) es
                                        (upd dat numInstances es))\<rparr>))"

definition updateBuffer ::
  "conversion \<Rightarrow> 'r attribute \<Rightarrow> string \<Rightarrow> int \<Rightarrow> 'r list \<Rightarrow> (string \<Rightarrow> ('r \<Rightarrow> jsval) option) \<Rightarrow>
   'r world \<Rightarrow> ('r attribute \<times> 'r world) outcome" where
  "updateBuffer conv a attributeName numInstances dat props w =
     (case attr_update a of
        Some upd \<Rightarrow>
          (case callUpdater conv upd a attributeName numInstances dat
                  (emit (OnLog (Updating attributeName numInstances)) w) of
             Thrown e w' \<Rightarrow> Thrown e (a, w')
           | Done w' \<Rightarrow> checked a attributeName w')
      | None \<Rightarrow>
          if accessorTruthy (attr_accessor a) then
            (case updateBufferViaStandardAccessor conv a dat props w of
               Thrown e w' \<Rightarrow> Thrown e (a, w')
             | Done w' \<Rightarrow> checked a attributeName w')
          else Done (finishUpdate a (emit (OnLog (MissingUpdate attributeName)) w)))"

definition updateAttribute ::
  "conversion \<Rightarrow> int \<Rightarrow> 'r list \<Rightarrow> (string \<Rightarrow> ('r \<Rightarrow> jsval) option) \<Rightarrow> int \<Rightarrow> string \<Rightarrow>
   'r attribute \<Rightarrow> 'r world \<Rightarrow> ('r attribute \<times> 'r world) outcome" where
  "updateAttribute conv numInstances dat props allocCount attributeName a w =
     (if attr_needsAlloc a then
        (case glArrayFromType (typeOrFloat a) True of
           Inl e \<Rightarrow> Thrown e (a, w)
         | Inr T \<Rightarrow>
             if attr_size a * allocCount < 0
             then Thrown (RangeError ''Invalid typed array length'') (a, w)
             else
               (let (h', b) = allocate T (nat (attr_size a * allocCount)) (heap w);
                    w1 = emit (OnLog (Allocated attributeName allocCount)) (w\<lparr>heap := h'\<rparr>);
                    a1 = a\<lparr>attr_value := Some b, attr_needsAlloc := False, attr_needsUpdate := True\<rparr>
                in updateBuffer conv a1 attributeName numInstances dat props w1))
      else if attr_needsUpdate a then updateBuffer conv a attributeName numInstances dat props w
      else Done (a, w))"

definition updateBuffers ::
  "conversion \<Rightarrow> int \<Rightarrow> 'r list \<Rightarrow> (string \<Rightarrow> ('r \<Rightarrow> jsval) option) \<Rightarrow> 'r world \<Rightarrow> 'r world outcome" where
  "updateBuffers conv numInstances dat props w =
     (let allocCount = max numInstances 1 in
      case forAttributes (updateAttribute conv numInstances dat props allocCount) [] (attributes w) w of
        Thrown e w' \<Rightarrow> Thrown e w'
      | Done w' \<Rightarrow> Done (w'\<lparr>allocedInstances := allocCount\<rparr>))"

subsection \<open>The update cycle\<close>

definition update ::
  "conversion \<Rightarrow> 'r list \<Rightarrow> int \<Rightarrow> (string \<Rightarrow> ('r \<Rightarrow> jsval) option) \<Rightarrow> (string \<times> addr) list \<Rightarrow> bool \<Rightarrow>
   'r world \<Rightarrow> 'r world outcome" where
  "update conv dat numInstances props buffers ignoreUnknownAttributes w =
     (case checkExternalBuffers buffers ignoreUnknownAttributes w of
        Some e \<Rightarrow> Thrown e w
      | None \<Rightarrow>
          (case setExternalBuffers buffers w of
             Thrown e w1 \<Rightarrow> Thrown e w1
           | Done w1 \<Rightarrow>
               (case analyzeBuffers numInstances w1 of
                  (w2, needed) \<Rightarrow>
                    if needed then
                      (case updateBuffers conv numInstances dat props
                              (emit StatsTimeStart (emit (OnUpdateStart numInstances) w2)) of
                         Thrown e w3 \<Rightarrow> Thrown e w3
                       | Done w3 \<Rightarrow> Done (emit (OnUpdateEnd numInstances) (emit StatsTimeEnd w3)))
                    else Done w2)))"

section \<open>Histories and what calls preserve\<close>



text \<open>
  What the steps of an update do to the world around the attribute they visit: the store only
  grows, and an array in it keeps its type and its length; events are only appended; the redraw
  flag is only raised; the manager's name and trigger index stay.
\<close>

definition storeGrows :: "store \<Rightarrow> store \<Rightarrow> bool" where
  "storeGrows h h' =
     (length h \<le> length h' \<and>
      (\<forall>b < length h. arrayType (h' ! b) = arrayType (h ! b)
                        \<and> length (elems (h' ! b)) = length (elems (h ! b))))"

definition progress :: "'r world \<Rightarrow> 'r world \<Rightarrow> bool" where
  "progress w w' =
     (storeGrows (heap w) (heap w') \<and> (\<exists>evs. events w' = events w @ evs)
      \<and> (needsRedraw w \<longrightarrow> needsRedraw w')
      \<and> updateTriggers w' = updateTriggers w \<and> managerId w' = managerId w)"

text \<open>
  Three conditions on a state, relative to the buffers and the instance count of an update call.
  \<open>buffersInStore\<close>: every buffer an attribute holds is an array of the store.
  \<open>overridesSettled\<close>: no attribute that the call gives an external buffer has an allocation
  pending. \<open>atRest\<close>: the state a returned update leaves, in which no attribute needs an update,
  an attribute with an external buffer holds that buffer, and an attribute without one is marked
  as not external and, if it has a computation, holds a buffer of sufficient capacity.
\<close>

definition buffersInStore :: "'r world \<Rightarrow> bool" where
  "buffersInStore w =
     list_all (\<lambda>(k, a). case attr_value a of None \<Rightarrow> True | Some b \<Rightarrow> b < length (heap w))
       (attributes w)"

definition overridesSettled :: "(string \<times> addr) list \<Rightarrow> 'r world \<Rightarrow> bool" where
  "overridesSettled bufferMap w =
     list_all (\<lambda>(k, a). map_of bufferMap k = None \<or> \<not> attr_needsAlloc a) (attributes w)"

definition restingAttribute :: "(string \<times> addr) list \<Rightarrow> int \<Rightarrow> store \<Rightarrow> string \<Rightarrow> 'r attribute \<Rightarrow> bool" where
  "restingAttribute bufferMap numInstances h k a =
     (\<not> attr_needsUpdate a \<and>
      (case map_of bufferMap k of
         None \<Rightarrow>
           \<not> attr_isExternalBuffer a \<and>
           (\<not> hasComputation a \<or>
            (case attr_value a of
               None \<Rightarrow> False
             | Some b \<Rightarrow> b < length h \<and> \<not> capacityBelow h b (attr_size a) numInstances))
       | Some b \<Rightarrow>
           attr_isExternalBuffer a \<and> attr_value a = Some b \<and> b < length h \<and>
           glArrayFromType (typeOrFloat a) True = Inr (arrayType (h ! b))))"

definition atRest :: "(string \<times> addr) list \<Rightarrow> int \<Rightarrow> 'r world \<Rightarrow> bool" where
  "atRest bufferMap numInstances w =
     list_all (\<lambda>(k, a). restingAttribute bufferMap numInstances (heap w) k a) (attributes w)"

section \<open>Example inputs\<close>

text \<open>
  The closed examples below use the element conversion of a \<^verbatim>\<open>Float32Array\<close> on the values they
  store: a number that single precision holds exactly is kept, \<open>NaN\<close> is kept, \<open>null\<close> becomes 0
  and \<open>undefined\<close> becomes \<open>NaN\<close>.
\<close>

definition exactConv :: conversion where
  "exactConv T v = (case v of JNum x \<Rightarrow> x | JNull \<Rightarrow> Fin 0 | _ \<Rightarrow> NaN)"

text \<open>An attribute of two components read through the accessor \<^verbatim>\<open>getPosition\<close>, with the default
  value \<^verbatim>\<open>[9, 9]\<close>, an accessor that returns \<^verbatim>\<open>[1, NaN]\<close>, and a store holding one array of two
  elements.\<close>

definition positionExample :: "unit attribute" where
  "positionExample =
     \<lparr>attr_size = 2, attr_type = None, attr_update = None, attr_accessor = AccStr ''getPosition'',
      attr_noAlloc = False, attr_auto = False,
      attr_defaultValue = JArr [JNum (Fin 9), JNum (Fin 9)],
      attr_isIndexed = False, attr_isExternalBuffer = False, attr_needsAlloc = False,
      attr_needsUpdate = True, attr_changed = False, attr_value = Some 0\<rparr>"

definition positionProps :: "string \<Rightarrow> (unit \<Rightarrow> jsval) option" where
  "positionProps k = (if k = ''getPosition'' then Some (\<lambda>u. JArr [JNum (Fin 1), JNum NaN]) else None)"

definition twoSlots :: "unit world" where
  "twoSlots = newManager ''m'' [\<lparr>arrayType = Float32Array, elems = [Fin 0, Fin 0]\<rparr>]"

text \<open>Descriptors as an application passes them to \<^verbatim>\<open>add\<close>, and the manager after registering
  \<^verbatim>\<open>position\<close>.\<close>

definition positionDescriptor :: "unit descriptor" where
  "positionDescriptor =
     \<lparr>d_size = Some 2, d_elements = False, d_isIndexed = False, d_type = None, d_update = None,
      d_accessor = AccStr ''getPosition'', d_noAlloc = False, d_auto = False,
      d_defaultValue = JArr [JNum (Fin 9), JNum (Fin 9)], d_value = None\<rparr>"


text \<open>The same attribute marked \<^verbatim>\<open>auto\<close>, in a store that holds one empty
  \<^verbatim>\<open>Float32Array\<close>.\<close>

definition autoRegistered :: "unit world" where
  "autoRegistered =
     stateOf (add [(''position'', positionDescriptor\<lparr>d_auto := True\<rparr>)]
                (newManager ''m'' [\<lparr>arrayType = Float32Array, elems = []\<rparr>]))"


text \<open>The position attribute with the one-component default \<^verbatim>\<open>[9]\<close>, a store holding one array
  of four elements, and that store after the accessor loop has run over two records.\<close>

definition shortDefault :: "unit attribute" where
  "shortDefault = positionExample\<lparr>attr_defaultValue := JArr [JNum (Fin 9)]\<rparr>"

definition fourSlots :: "unit world" where
  "fourSlots = newManager ''m'' [\<lparr>arrayType = Float32Array, elems = [Fin 0, Fin 0, Fin 0, Fin 0]\<rparr>]"

definition fourSlotsFilled :: "unit world" where
  "fourSlotsFilled =
     fourSlots\<lparr>events := [AccessorCall ''getPosition'' (), AccessorCall ''getPosition'' ()],
               heap := [\<lparr>arrayType = Float32Array, elems = [Fin 1, NaN, Fin 1, NaN]\<rparr>]\<rparr>"

text \<open>Two attributes of one component: \<^verbatim>\<open>weight\<close>, read through \<^verbatim>\<open>getWeight\<close>, and \<^verbatim>\<open>radius\<close>,
  whose accessor is named \<^verbatim>\<open>weight\<close>; and the manager after registering both.\<close>

definition weightDescriptor :: "unit descriptor" where
  "weightDescriptor = positionDescriptor\<lparr>d_size := Some 1, d_accessor := AccStr ''getWeight''\<rparr>"






text \<open>
  A manager with \<^verbatim>\<open>position\<close> (two components, accessor \<^verbatim>\<open>getPosition\<close>) and \<^verbatim>\<open>weight\<close> (one
  component, accessor \<^verbatim>\<open>getWeight\<close>), in a store where the application has created one
  \<^verbatim>\<open>Float32Array\<close> holding \<^verbatim>\<open>[7, 7]\<close>; props that bind both accessors, and props that bind
  \<^verbatim>\<open>getWeight\<close> only.
\<close>

definition twoAttributes :: "unit world" where
  "twoAttributes =
     stateOf (add [(''position'', positionDescriptor), (''weight'', weightDescriptor)]
                (newManager ''m'' [\<lparr>arrayType = Float32Array, elems = [Fin 7, Fin 7]\<rparr>]))"

definition bothProps :: "string \<Rightarrow> (unit \<Rightarrow> jsval) option" where
  "bothProps k =
     (if k = ''getPosition'' then Some (\<lambda>u. JArr [JNum (Fin 1), JNum (Fin 2)])
      else if k = ''getWeight'' then Some (\<lambda>u. JNum (Fin 3))
      else None)"

definition weightOnlyProps :: "string \<Rightarrow> (unit \<Rightarrow> jsval) option" where
  "weightOnlyProps k = (if k = ''getWeight'' then Some (\<lambda>u. JNum (Fin 3)) else None)"

text \<open>
  The states of two histories of that manager. In the first, an update of two instances whose
  props lack \<^verbatim>\<open>getPosition\<close> is aborted by the failed assertion (\<open>afterAbort\<close>); the next update
  binds both accessors and passes the application's array as the buffer of \<^verbatim>\<open>weight\<close>
  (\<open>afterOverride\<close>); the changed flags are read and cleared, and the same update is made again
  (\<open>afterRepeat\<close>).
\<close>

definition afterAbort :: "unit world" where
  "afterAbort =
     twoAttributes
       \<lparr>attributes :=
          [(''position'', (attributeData 2 positionDescriptor)\<lparr>attr_needsUpdate := True, attr_value := Some 1\<rparr>),
           (''weight'', (attributeData 1 weightDescriptor)\<lparr>attr_needsAlloc := True\<rparr>)],
        heap := [\<lparr>arrayType = Float32Array, elems = [Fin 7, Fin 7]\<rparr>,
                 \<lparr>arrayType = Float32Array, elems = [Fin 0, Fin 0, Fin 0, Fin 0]\<rparr>],
        events := [OnUpdateStart 2, StatsTimeStart, OnLog (Allocated ''position'' 2)]\<rparr>"

definition afterOverride :: "unit world" where
  "afterOverride =
     afterAbort
       \<lparr>attributes :=
          [(''position'', (attributeData 2 positionDescriptor)\<lparr>attr_changed := True, attr_value := Some 1\<rparr>),
           (''weight'', (attributeData 1 weightDescriptor)
                          \<lparr>attr_isExternalBuffer := True, attr_changed := True, attr_value := Some 2\<rparr>)],
        allocedInstances := 2,
        heap := [\<lparr>arrayType = Float32Array, elems = [Fin 7, Fin 7]\<rparr>,
                 \<lparr>arrayType = Float32Array, elems = [Fin 1, Fin 2, Fin 1, Fin 2]\<rparr>,
                 \<lparr>arrayType = Float32Array, elems = [Fin 3, Fin 3]\<rparr>],
        events := events afterAbort @
                  [OnUpdateStart 2, StatsTimeStart,
                   AccessorCall ''getPosition'' (), AccessorCall ''getPosition'' (),
                   OnLog (Allocated ''weight'' 2),
                   AccessorCall ''getWeight'' (), AccessorCall ''getWeight'' (),
                   StatsTimeEnd, OnUpdateEnd 2]\<rparr>"

definition afterRepeat :: "unit world" where
  "afterRepeat =
     afterOverride
       \<lparr>attributes :=
          [(''position'', (attributeData 2 positionDescriptor)\<lparr>attr_value := Some 1\<rparr>),
           (''weight'', (attributeData 1 weightDescriptor)
                          \<lparr>attr_isExternalBuffer := True, attr_changed := True, attr_value := Some 0\<rparr>)]\<rparr>"

text \<open>
  In the second history no external buffer is used: an update of two instances fills both
  attributes (\<open>filledTwo\<close>), an update of three instances without \<^verbatim>\<open>getPosition\<close> is aborted
  (\<open>abortedThree\<close>), and an update of two instances follows (\<open>filledAgain\<close>).
\<close>

definition filledTwo :: "unit world" where
  "filledTwo =
     twoAttributes
       \<lparr>attributes :=
          [(''position'', (attributeData 2 positionDescriptor)\<lparr>attr_changed := True, attr_value := Some 1\<rparr>),
           (''weight'', (attributeData 1 weightDescriptor)\<lparr>attr_changed := True, attr_value := Some 2\<rparr>)],
        allocedInstances := 2,
        heap := [\<lparr>arrayType = Float32Array, elems = [Fin 7, Fin 7]\<rparr>,
                 \<lparr>arrayType = Float32Array, elems = [Fin 1, Fin 2, Fin 1, Fin 2]\<rparr>,
                 \<lparr>arrayType = Float32Array, elems = [Fin 3, Fin 3]\<rparr>],
        events := [OnUpdateStart 2, StatsTimeStart, OnLog (Allocated ''position'' 2),
                   AccessorCall ''getPosition'' (), AccessorCall ''getPosition'' (),
                   OnLog (Allocated ''weight'' 2),
                   AccessorCall ''getWeight'' (), AccessorCall ''getWeight'' (),
                   StatsTimeEnd, OnUpdateEnd 2]\<rparr>"

definition abortedThree :: "unit world" where
  "abortedThree =
     filledTwo
       \<lparr>attributes :=
          [(''position'', (attributeData 2 positionDescriptor)
                            \<lparr>attr_needsUpdate := True, attr_changed := True, attr_value := Some 3\<rparr>),
           (''weight'', (attributeData 1 weightDescriptor)
                          \<lparr>attr_needsAlloc := True, attr_changed := True, attr_value := Some 2\<rparr>)],
        heap := heap filledTwo @
                [\<lparr>arrayType = Float32Array, elems = [Fin 0, Fin 0, Fin 0, Fin 0, Fin 0, Fin 0]\<rparr>],
        events := events filledTwo @
                  [OnUpdateStart 3, StatsTimeStart, OnLog (Allocated ''position'' 3)]\<rparr>"

definition filledAgain :: "unit world" where
  "filledAgain =
     abortedThree
       \<lparr>attributes :=
          [(''position'', (attributeData 2 positionDescriptor)\<lparr>attr_changed := True, attr_value := Some 3\<rparr>),
           (''weight'', (attributeData 1 weightDescriptor)\<lparr>attr_changed := True, attr_value := Some 4\<rparr>)],
        heap := heap filledTwo @
                [\<lparr>arrayType = Float32Array, elems = [Fin 1, Fin 2, Fin 1, Fin 2, Fin 0, Fin 0]\<rparr>,
                 \<lparr>arrayType = Float32Array, elems = [Fin 3, Fin 3]\<rparr>],
        events := events abortedThree @
                  [OnUpdateStart 2, StatsTimeStart,
                   AccessorCall ''getPosition'' (), AccessorCall ''getPosition'' (),
                   OnLog (Allocated ''weight'' 2),
                   AccessorCall ''getWeight'' (), AccessorCall ''getWeight'' (),
                   StatsTimeEnd, OnUpdateEnd 2]\<rparr>"


section \<open>Packing through the standard accessor\<close>

lemma length_taStore [simp]: "length (taStore conv T es i v) = length es"
  by (simp add: taStore_def)

lemma length_packRecord [simp]: "length (packRecord conv T sz i ov dv es) = length es"
  by (simp add: packRecord_def Let_def)

lemma length_accessorLoop [simp]: "length (accessorLoop conv T sz dv f recs i es) = length es"
  by (induction recs arbitrary: i es) simp_all

lemma taStore_nth:
  "j < length es \<Longrightarrow> taStore conv T es i v ! j = (if 0 \<le> i \<and> nat i = j then conv T v else es ! j)"
  by (auto simp: taStore_def nth_list_update)

lemma packRecord_nth_in:
  assumes "1 \<le> sz" "sz \<le> 4" "0 \<le> i" "k < nat sz" "nat i + k < length es"
  shows "packRecord conv T sz i ov dv es ! (nat i + k) = conv T (packed ov dv k)"
proof -
  from assms have "sz = 1 \<or> sz = 2 \<or> sz = 3 \<or> sz = 4" by arith
  moreover from assms have "k = 0 \<or> k = 1 \<or> k = 2 \<or> k = 3" by arith
  ultimately show ?thesis using assms
    by (auto simp: packRecord_def Let_def taStore_nth nat_add_distrib)
qed

lemma packRecord_nth_out:
  assumes "0 \<le> i" "j < length es" "j < nat i \<or> nat i + nat sz \<le> j"
  shows "packRecord conv T sz i ov dv es ! j = es ! j"
  using assms by (auto simp: packRecord_def Let_def taStore_nth)

lemma accessorLoop_below:
  "0 \<le> i \<Longrightarrow> 0 \<le> sz \<Longrightarrow> j < nat i \<Longrightarrow> j < length es \<Longrightarrow>
   accessorLoop conv T sz dv f recs i es ! j = es ! j"
proof (induction recs arbitrary: i es)
  case Nil
  then show ?case by simp
next
  case (Cons object rest)
  have "accessorLoop conv T sz dv f rest (i + sz) (packRecord conv T sz i (toComponents (f object)) dv es) ! j
        = packRecord conv T sz i (toComponents (f object)) dv es ! j"
    using Cons.prems by (intro Cons.IH) auto
  also have "\<dots> = es ! j"
    using Cons.prems by (intro packRecord_nth_out) auto
  finally show ?case by simp
qed

lemma accessorLoop_beyond:
  "0 \<le> i \<Longrightarrow> 0 \<le> sz \<Longrightarrow> nat i + length recs * nat sz \<le> j \<Longrightarrow> j < length es \<Longrightarrow>
   accessorLoop conv T sz dv f recs i es ! j = es ! j"
proof (induction recs arbitrary: i es)
  case Nil
  then show ?case by simp
next
  case (Cons object rest)
  have "accessorLoop conv T sz dv f rest (i + sz) (packRecord conv T sz i (toComponents (f object)) dv es) ! j
        = packRecord conv T sz i (toComponents (f object)) dv es ! j"
    using Cons.prems by (intro Cons.IH) (auto simp: nat_add_distrib)
  also have "\<dots> = es ! j"
    using Cons.prems by (intro packRecord_nth_out) auto
  finally show ?case by simp
qed

lemma accessorLoop_nth:
  "1 \<le> sz \<Longrightarrow> sz \<le> 4 \<Longrightarrow> 0 \<le> i \<Longrightarrow> r < length recs \<Longrightarrow> k < nat sz \<Longrightarrow>
   nat i + r * nat sz + k < length es \<Longrightarrow>
   accessorLoop conv T sz dv f recs i es ! (nat i + r * nat sz + k)
     = conv T (packed (toComponents (f (recs ! r))) dv k)"
proof (induction recs arbitrary: i es r)
  case Nil
  then show ?case by simp
next
  case (Cons object rest)
  let ?es1 = "packRecord conv T sz i (toComponents (f object)) dv es"
  show ?case
  proof (cases r)
    case 0
    have "accessorLoop conv T sz dv f rest (i + sz) ?es1 ! (nat i + k) = ?es1 ! (nat i + k)"
      using Cons.prems 0 by (intro accessorLoop_below) (auto simp: nat_add_distrib)
    also have "\<dots> = conv T (packed (toComponents (f object)) dv k)"
      using Cons.prems 0 by (intro packRecord_nth_in) auto
    finally show ?thesis using 0 by simp
  next
    case (Suc r')
    have "accessorLoop conv T sz dv f rest (i + sz) ?es1 ! (nat (i + sz) + r' * nat sz + k)
          = conv T (packed (toComponents (f (rest ! r'))) dv k)"
      using Cons.prems Suc by (intro Cons.IH) (auto simp: nat_add_distrib)
    moreover have "nat (i + sz) + r' * nat sz + k = nat i + r * nat sz + k"
      using Cons.prems Suc by (simp add: nat_add_distrib)
    ultimately show ?thesis using Suc by simp
  qed
qed

text \<open>
  Claim C1. For an attribute read through an accessor, with \<open>s\<close> components per record and default
  value \<open>d\<close>, \<^verbatim>\<open>_updateBufferViaStandardAccessor\<close> calls the accessor resolved from \<^verbatim>\<open>props\<close> once
  per record, in the order of the data, and stores into slot \<open>r * s + k\<close> of the buffer, for record
  \<open>r\<close> and component \<open>k < s\<close>, component \<open>k\<close> of the accessor's output when that is a finite
  number and \<open>d[k]\<close> otherwise (as the typed array converts it). Components of the output beyond
  \<open>s\<close> are never read, the buffer keeps its length, and the slots after the last record keep their
  contents. A slot that the buffer does not have is not stored.
\<close>

theorem C1_packing:
  assumes acc: "props (accessorKey (attr_accessor a)) = Some accessorFunc"
    and buf: "attr_value a = Some b" "b < length (heap w)"
    and sz: "1 \<le> attr_size a" "attr_size a \<le> 4"
  shows "\<exists>w'. updateBufferViaStandardAccessor conv a dat props w = Done w'
           \<and> events w' = events w @ map (AccessorCall (accessorKey (attr_accessor a))) dat
           \<and> length (heap w') = length (heap w)
           \<and> length (elems (heap w' ! b)) = length (elems (heap w ! b))
           \<and> (\<forall>r k. r < length dat \<longrightarrow> k < nat (attr_size a) \<longrightarrow>
                  r * nat (attr_size a) + k < length (elems (heap w ! b)) \<longrightarrow>
                  elems (heap w' ! b) ! (r * nat (attr_size a) + k) =
                    conv (arrayType (heap w ! b))
                      (if Number_isFinite (component (toComponents (accessorFunc (dat ! r))) k)
                       then component (toComponents (accessorFunc (dat ! r))) k
                       else component (defaultComponents (attr_defaultValue a)) k))
           \<and> (\<forall>j. length dat * nat (attr_size a) \<le> j \<longrightarrow> j < length (elems (heap w ! b)) \<longrightarrow>
                  elems (heap w' ! b) ! j = elems (heap w ! b) ! j)"
proof -
  let ?T = "arrayType (heap w ! b)"
  let ?es = "elems (heap w ! b)"
  let ?es' = "accessorLoop conv ?T (attr_size a) (defaultComponents (attr_defaultValue a)) accessorFunc dat 0 ?es"
  let ?w' = "w\<lparr>events := events w @ map (AccessorCall (accessorKey (attr_accessor a))) dat,
               heap := writeElems (heap w) b
                         (\<lambda>T. accessorLoop conv T (attr_size a)
                                (defaultComponents (attr_defaultValue a)) accessorFunc dat 0)\<rparr>"
  have run: "updateBufferViaStandardAccessor conv a dat props w = Done ?w'"
    using acc buf by (simp add: updateBufferViaStandardAccessor_def Let_def)
  have el: "elems (heap ?w' ! b) = ?es'"
    using buf by (simp add: writeElems_def)
  have slots: "elems (heap ?w' ! b) ! (r * nat (attr_size a) + k) =
          conv ?T (packed (toComponents (accessorFunc (dat ! r))) (defaultComponents (attr_defaultValue a)) k)"
    if "r < length dat" "k < nat (attr_size a)" "r * nat (attr_size a) + k < length ?es" for r k
    using accessorLoop_nth [of "attr_size a" 0 r dat k ?es conv ?T "defaultComponents (attr_defaultValue a)" accessorFunc]
      that sz el by simp
  have rest: "elems (heap ?w' ! b) ! j = ?es ! j"
    if "length dat * nat (attr_size a) \<le> j" "j < length ?es" for j
    using accessorLoop_beyond [of 0 "attr_size a" dat j ?es conv ?T "defaultComponents (attr_defaultValue a)" accessorFunc]
      that sz el by simp
  have "length (heap ?w') = length (heap w)"
    by (simp add: writeElems_def)
  moreover have "length (elems (heap ?w' ! b)) = length ?es"
    using el by simp
  ultimately show ?thesis
    using run slots rest by (auto simp: packed_def)
qed

text \<open>The accessor returning \<^verbatim>\<open>[1, NaN]\<close> for two components with default \<^verbatim>\<open>[9, 9]\<close> packs
  \<^verbatim>\<open>[1, 9]\<close>.\<close>

theorem C1_packing_witness:
  "positionProps (accessorKey (attr_accessor positionExample)) = Some (\<lambda>u. JArr [JNum (Fin 1), JNum NaN])
   \<and> attr_value positionExample = Some 0 \<and> 0 < length (heap twoSlots)
   \<and> 1 \<le> attr_size positionExample \<and> attr_size positionExample \<le> 4
   \<and> (\<exists>w'. updateBufferViaStandardAccessor exactConv positionExample [()] positionProps twoSlots = Done w'
          \<and> events w' = [AccessorCall ''getPosition'' ()]
          \<and> elems (heap w' ! 0) = [Fin 1, Fin 9])"
proof -
  have h1: "positionProps (accessorKey (attr_accessor positionExample)) = Some (\<lambda>u. JArr [JNum (Fin 1), JNum NaN])"
    by (simp add: positionProps_def positionExample_def)
  have h2: "attr_value positionExample = Some 0"
    by (simp add: positionExample_def)
  have h3: "0 < length (heap twoSlots)"
    by (simp add: twoSlots_def newManager_def)
  have h4: "1 \<le> attr_size positionExample" and h5: "attr_size positionExample \<le> 4"
    by (simp_all add: positionExample_def)
  from C1_packing [where props = positionProps and a = positionExample and b = 0 and w = twoSlots
      and accessorFunc = "\<lambda>u. JArr [JNum (Fin 1), JNum NaN]" and conv = exactConv and dat = "[()]",
      OF h1 h2 h3 h4 h5]
  obtain w' where run: "updateBufferViaStandardAccessor exactConv positionExample [()] positionProps twoSlots = Done w'"
    and ev: "events w' = events twoSlots @ map (AccessorCall (accessorKey (attr_accessor positionExample))) [()]"
    and len: "length (elems (heap w' ! 0)) = length (elems (heap twoSlots ! 0))"
    and slots: "\<And>r k. r < length [()] \<Longrightarrow> k < nat (attr_size positionExample) \<Longrightarrow>
                  r * nat (attr_size positionExample) + k < length (elems (heap twoSlots ! 0)) \<Longrightarrow>
                  elems (heap w' ! 0) ! (r * nat (attr_size positionExample) + k) =
                    exactConv (arrayType (heap twoSlots ! 0))
                      (if Number_isFinite (component (toComponents (JArr [JNum (Fin 1), JNum NaN])) k)
                       then component (toComponents (JArr [JNum (Fin 1), JNum NaN])) k
                       else component (defaultComponents (attr_defaultValue positionExample)) k)"
    by blast
  have e0: "elems (heap w' ! 0) ! 0 = Fin 1"
    using slots [of 0 0]
    by (simp add: positionExample_def twoSlots_def newManager_def component_def exactConv_def)
  have e1: "elems (heap w' ! 0) ! 1 = Fin 9"
    using slots [of 0 1]
    by (simp add: positionExample_def twoSlots_def newManager_def component_def exactConv_def
        defaultComponents_def)
  have l2: "length (elems (heap w' ! 0)) = 2"
    using len by (simp add: twoSlots_def newManager_def)
  have "elems (heap w' ! 0) = [Fin 1, Fin 9]"
    using e0 e1 l2 by (auto simp: list_eq_iff_nth_eq less_Suc_eq numeral_2_eq_2)
  moreover have "events w' = [AccessorCall ''getPosition'' ()]"
    using ev by (simp add: twoSlots_def newManager_def positionExample_def)
  ultimately show ?thesis using h1 h2 h3 h4 h5 run by blast
qed

section \<open>Invalidating an unknown trigger\<close>



section \<open>Registration\<close>


lemma newAttributes_valid:
  "list_all (\<lambda>(n, d). validateAttributeDefinition n (attributeSize d) d = None) descriptors \<Longrightarrow>
   \<exists>new. newAttributes descriptors acc = Inr new"
  by (induction descriptors arbitrary: acc) auto



section \<open>The size check on external buffers\<close>

text \<open>
  The guard \<^verbatim>\<open>buffer.length <= numInstances * attribute.size\<close> of \<^verbatim>\<open>_setExternalBuffers\<close>
  compares with \<open>NaN\<close> and is false for every buffer.
\<close>

lemma size_check_never_fires: "\<not> js_le (Fin x) (thisNumInstancesTimes sz)"
  by (simp add: thisNumInstancesTimes_def)

text \<open>
  Claim C4. An attribute marked \<^verbatim>\<open>auto\<close> with two components per record, five instances, and an
  external \<^verbatim>\<open>Float32Array\<close> of length 0: the claim asks for a size mismatch error and for the
  attribute to keep its state; the code accepts the buffer and the update returns normally.
\<close>

theorem C4_undersized_buffer_accepted:
  "update exactConv [(), (), (), (), ()] 5 positionProps [(''position'', 0)] False autoRegistered =
     Done (autoRegistered\<lparr>attributes :=
              [(''position'', (attributeData 2 (positionDescriptor\<lparr>d_auto := True\<rparr>))
                 \<lparr>attr_isExternalBuffer := True, attr_changed := True, attr_value := Some 0\<rparr>)],
            needsRedraw := True\<rparr>)
   \<and> attr_auto (attributeData 2 (positionDescriptor\<lparr>d_auto := True\<rparr>))
   \<and> length (elems (heap autoRegistered ! 0)) = 0"
  by (simp add: update_def autoRegistered_def add_def validateAttributeDefinition_def attributeSize_def
        positionDescriptor_def objectAssign_def mapUpdateTriggersToAttributes_def newManager_def
        attributeData_def pushTrigger_def checkExternalBuffers_def setExternalBuffers_def
        setExternalBuffer_def typeOrFloat_def instanceOf_def deref_def thisNumInstancesTimes_def
        analyzeBuffers_def analyzeAttribute_def)

section \<open>The check after filling\<close>

lemma take4_finite:
  assumes "4 \<le> length es"
  shows "list_all (\<lambda>x. Number_isFinite (JNum x)) (take 4 es) =
     (Number_isFinite (JNum (es ! 0)) \<and> Number_isFinite (JNum (es ! 1)) \<and>
      Number_isFinite (JNum (es ! 2)) \<and> Number_isFinite (JNum (es ! 3)))"
proof -
  from assms obtain a r1 where e1: "es = a # r1" by (cases es) auto
  with assms obtain b r2 where e2: "r1 = b # r2" by (cases r1) auto
  with assms e1 obtain c r3 where e3: "r2 = c # r3" by (cases r2) auto
  with assms e1 e2 obtain d r4 where e4: "r3 = d # r4" by (cases r3) auto
  show ?thesis by (simp add: e1 e2 e3 e4)
qed


lemma checked_eq:
  assumes "attr_value a = Some b" "b < length (heap w)"
  shows "checked a attributeName w =
          (if 4 \<le> length (elems (heap w ! b)) \<and>
              \<not> list_all (\<lambda>x. Number_isFinite (JNum x)) (take 4 (elems (heap w ! b)))
           then Thrown (Error (''Illegal attribute generated for '' @ attributeName)) (a, w)
           else Done (a\<lparr>attr_needsUpdate := False, attr_changed := True\<rparr>, w\<lparr>needsRedraw := True\<rparr>))"
proof (cases "4 \<le> length (elems (heap w ! b))")
  case True
  show ?thesis
    using assms True
    by (simp add: checked_def checkAttributeArray_def deref_def finishUpdate_def take4_finite [OF True])
next
  case False
  then show ?thesis
    using assms
    by (simp add: checked_def checkAttributeArray_def deref_def finishUpdate_def)
qed

text \<open>
  Claim C9. Once the bulk updater or the accessor loop has filled the buffer of an attribute
  (leaving the world \<open>filled\<close>), \<^verbatim>\<open>_updateBuffer\<close> accepts the result, clearing \<^verbatim>\<open>needsUpdate\<close>
  and raising \<^verbatim>\<open>changed\<close> and the redraw flag, unless the buffer has at least four elements
  and one of the first four is not a finite number; then it throws an error naming the attribute
  and leaves the flags alone. A buffer of fewer than four elements is always accepted.
\<close>

theorem C9_sentinel_check:
  assumes fill: "(case attr_update a of
                    Some upd \<Rightarrow> callUpdater conv upd a attributeName numInstances dat
                                  (emit (OnLog (Updating attributeName numInstances)) w)
                  | None \<Rightarrow> updateBufferViaStandardAccessor conv a dat props w) = Done filled"
    and comp: "hasComputation a"
    and buf: "attr_value a = Some b" "b < length (heap filled)"
  shows "updateBuffer conv a attributeName numInstances dat props w =
          (if 4 \<le> length (elems (heap filled ! b)) \<and>
              \<not> list_all (\<lambda>x. Number_isFinite (JNum x)) (take 4 (elems (heap filled ! b)))
           then Thrown (Error (''Illegal attribute generated for '' @ attributeName)) (a, filled)
           else Done (a\<lparr>attr_needsUpdate := False, attr_changed := True\<rparr>, filled\<lparr>needsRedraw := True\<rparr>))"
proof (cases "attr_update a")
  case None
  with comp have "accessorTruthy (attr_accessor a)" by (simp add: hasComputation_def)
  with None fill show ?thesis
    by (simp add: updateBuffer_def checked_eq [OF buf])
next
  case (Some upd)
  with fill show ?thesis
    by (simp add: updateBuffer_def checked_eq [OF buf])
qed

text \<open>
  Two records packed with a default that has one component only: the second component of each
  record is \<open>NaN\<close>, and the check fails.
\<close>

theorem C9_sentinel_check_witness:
  "(case attr_update shortDefault of
      Some upd \<Rightarrow> callUpdater exactConv upd shortDefault ''position'' 2 [(), ()]
                    (emit (OnLog (Updating ''position'' 2)) fourSlots)
    | None \<Rightarrow> updateBufferViaStandardAccessor exactConv shortDefault [(), ()] positionProps fourSlots)
     = Done fourSlotsFilled
   \<and> hasComputation shortDefault \<and> attr_value shortDefault = Some 0 \<and> 0 < length (heap fourSlotsFilled)
   \<and> updateBuffer exactConv shortDefault ''position'' 2 [(), ()] positionProps fourSlots =
        Thrown (Error ''Illegal attribute generated for position'') (shortDefault, fourSlotsFilled)"
proof -
  have fill: "(case attr_update shortDefault of
      Some upd \<Rightarrow> callUpdater exactConv upd shortDefault ''position'' 2 [(), ()]
                    (emit (OnLog (Updating ''position'' 2)) fourSlots)
    | None \<Rightarrow> updateBufferViaStandardAccessor exactConv shortDefault [(), ()] positionProps fourSlots)
     = Done fourSlotsFilled"
    by (simp add: shortDefault_def positionExample_def updateBufferViaStandardAccessor_def
        positionProps_def fourSlots_def fourSlotsFilled_def newManager_def writeElems_def
        packRecord_def taStore_def packed_def component_def defaultComponents_def exactConv_def Let_def)
  have comp: "hasComputation shortDefault"
    by (simp add: hasComputation_def shortDefault_def positionExample_def)
  have buf: "attr_value shortDefault = Some 0" "0 < length (heap fourSlotsFilled)"
    by (simp_all add: shortDefault_def positionExample_def fourSlotsFilled_def)
  from C9_sentinel_check [OF fill comp buf] show ?thesis
    using fill comp buf by (simp add: fourSlotsFilled_def)
qed

section \<open>Loops over the attributes\<close>

lemma forAttributes_keys:
  "map fst (attributes (stateOf (forAttributes body visited todo w))) = map fst visited @ map fst todo"
proof (induction todo arbitrary: visited w)
  case Nil
  then show ?case by simp
next
  case (Cons na rest)
  obtain name a where na: "na = (name, a)" by (cases na)
  show ?case
  proof (cases "body name a w")
    case (Done r)
    obtain a' w' where r: "r = (a', w')" by (cases r)
    show ?thesis using Cons.IH [of "visited @ [(name, a')]" w'] Done r na by simp
  next
    case (Thrown e r)
    obtain a' w' where r: "r = (a', w')" by (cases r)
    show ?thesis using Thrown r na by simp
  qed
qed

lemma forAttributes_updateTriggers:
  assumes "\<And>name a w. updateTriggers (snd (stateOf (body name a w))) = updateTriggers w"
  shows "updateTriggers (stateOf (forAttributes body visited todo w)) = updateTriggers w"
proof (induction todo arbitrary: visited w)
  case Nil
  then show ?case by simp
next
  case (Cons na rest)
  obtain name a where na: "na = (name, a)" by (cases na)
  show ?case
  proof (cases "body name a w")
    case (Done r)
    obtain a' w' where r: "r = (a', w')" by (cases r)
    have "updateTriggers w' = updateTriggers w" using assms [of name a w] Done r by simp
    then show ?thesis using Cons.IH [of "visited @ [(name, a')]" w'] Done r na by simp
  next
    case (Thrown e r)
    obtain a' w' where r: "r = (a', w')" by (cases r)
    have "updateTriggers w' = updateTriggers w" using assms [of name a w] Thrown r by simp
    then show ?thesis using Thrown r na by simp
  qed
qed

lemma storeGrows_refl [simp]: "storeGrows h h"
  by (simp add: storeGrows_def)

lemma storeGrows_trans: "storeGrows h1 h2 \<Longrightarrow> storeGrows h2 h3 \<Longrightarrow> storeGrows h1 h3"
  by (auto simp: storeGrows_def)

lemma progress_refl [simp]: "progress w w"
  by (simp add: progress_def)

lemma progress_trans: "progress w1 w2 \<Longrightarrow> progress w2 w3 \<Longrightarrow> progress w1 w3"
  by (auto simp: progress_def intro: storeGrows_trans)

lemma progress_attributes [simp]:
  "progress w (w'\<lparr>attributes := x\<rparr>) = progress w w'"
  "progress (w\<lparr>attributes := x\<rparr>) w' = progress w w'"
  by (simp_all add: progress_def)

lemma forAttributes_Done:
  assumes run: "forAttributes body visited todo w = Done final"
    and step: "\<And>name a w a' w'. (name, a) \<in> set todo \<Longrightarrow> progress w0 w \<Longrightarrow> body name a w = Done (a', w') \<Longrightarrow>
                 progress w w' \<and> R name a a' w'"
    and stable: "\<And>name a a' w w'. R name a a' w \<Longrightarrow> progress w w' \<Longrightarrow> R name a a' w'"
    and start: "progress w0 w"
  shows "progress w final \<and>
         (\<exists>todo'. attributes final = visited @ todo' \<and>
                   list_all2 (\<lambda>(n, a) (n', a'). n' = n \<and> R n a a' final) todo todo')"
  using run step start
proof (induction todo arbitrary: visited w)
  case Nil
  then show ?case by auto
next
  case (Cons na rest)
  obtain name a where na: "na = (name, a)" by (cases na)
  show ?case
  proof (cases "body name a w")
    case (Thrown e r)
    then show ?thesis using Cons.prems(1) na by (cases r) simp
  next
    case (Done r)
    obtain a' w' where r: "r = (a', w')" by (cases r)
    have b: "body name a w = Done (a', w')" using Done r by simp
    have run': "forAttributes body (visited @ [(name, a')]) rest w' = Done final"
      using Cons.prems(1) na b by simp
    have st: "progress w w' \<and> R name a a' w'"
      using Cons.prems(2) [of name a w a' w'] Cons.prems(3) b na by simp
    have start': "progress w0 w'" using st Cons.prems(3) progress_trans by blast
    have step': "\<And>name a w a' w'. (name, a) \<in> set rest \<Longrightarrow> progress w0 w \<Longrightarrow>
                   body name a w = Done (a', w') \<Longrightarrow> progress w w' \<and> R name a a' w'"
    proof -
      fix n b v b' v'
      assume "(n, b) \<in> set rest" "progress w0 v" "body n b v = Done (b', v')"
      then show "progress v v' \<and> R n b b' v'"
        using Cons.prems(2) [of n b v b' v'] by simp
    qed
    from Cons.IH [OF run' step' start']
    obtain todo' where p: "progress w' final" and at: "attributes final = (visited @ [(name, a')]) @ todo'"
      and rel: "list_all2 (\<lambda>(n, a) (n', a'). n' = n \<and> R n a a' final) rest todo'"
      by blast
    have "R name a a' final" using st p stable by blast
    then have "list_all2 (\<lambda>(n, a) (n', a'). n' = n \<and> R n a a' final) (na # rest) ((name, a') # todo')"
      using rel na by simp
    moreover have "attributes final = visited @ (name, a') # todo'" using at by simp
    moreover have "progress w final" using st p progress_trans by blast
    ultimately show ?thesis by blast
  qed
qed

section \<open>The trigger index covers the registry\<close>








lemma markNeedsUpdate_keys [simp]: "map fst (markNeedsUpdate n attrs) = map fst attrs"
  by (induction attrs) (auto simp: markNeedsUpdate_def)

lemma markAll_keys [simp]:
  "map fst (foldl (\<lambda>attrs name. markNeedsUpdate name attrs) attrs l) = map fst attrs"
  by (induction l arbitrary: attrs) simp_all

lemma setExternalBuffer_updateTriggers:
  "updateTriggers (snd (stateOf (setExternalBuffer bm name a w))) = updateTriggers w"
  by (simp add: setExternalBuffer_def Let_def split: option.split sum.split)

lemma checked_updateTriggers:
  "updateTriggers (snd (stateOf (checked a name w))) = updateTriggers w"
  by (simp add: checked_def finishUpdate_def split: option.split)

lemma callUpdater_updateTriggers:
  "updateTriggers (stateOf (callUpdater conv upd a name n dat w)) = updateTriggers w"
  by (simp add: callUpdater_def emit_def Let_def split: option.split)

lemma standardAccessor_updateTriggers:
  "updateTriggers (stateOf (updateBufferViaStandardAccessor conv a dat props w)) = updateTriggers w"
  by (simp add: updateBufferViaStandardAccessor_def emit_def Let_def split: option.split)

lemma updateBuffer_updateTriggers:
  "updateTriggers (snd (stateOf (updateBuffer conv a name n dat props w))) = updateTriggers w"
proof (cases "attr_update a")
  case None
  show ?thesis
  proof (cases "updateBufferViaStandardAccessor conv a dat props w")
    case (Done w')
    then show ?thesis
      using None standardAccessor_updateTriggers [of conv a dat props w] checked_updateTriggers [of a name w']
      by (simp add: updateBuffer_def finishUpdate_def emit_def)
  next
    case (Thrown e w')
    then show ?thesis
      using None standardAccessor_updateTriggers [of conv a dat props w]
      by (simp add: updateBuffer_def finishUpdate_def emit_def)
  qed
next
  case (Some upd)
  let ?w0 = "emit (OnLog (Updating name n)) w"
  show ?thesis
  proof (cases "callUpdater conv upd a name n dat ?w0")
    case (Done w')
    then show ?thesis
      using Some callUpdater_updateTriggers [of conv upd a name n dat ?w0] checked_updateTriggers [of a name w']
      by (simp add: updateBuffer_def emit_def)
  next
    case (Thrown e w')
    then show ?thesis
      using Some callUpdater_updateTriggers [of conv upd a name n dat ?w0]
      by (simp add: updateBuffer_def emit_def)
  qed
qed

lemma updateAttribute_updateTriggers:
  "updateTriggers (snd (stateOf (updateAttribute conv n dat props c name a w))) = updateTriggers w"
  by (simp add: updateAttribute_def allocate_def emit_def Let_def updateBuffer_updateTriggers
      split: sum.split)

lemma setExternalBuffers_frame:
  "map fst (attributes (stateOf (setExternalBuffers bm w))) = map fst (attributes w)"
  "updateTriggers (stateOf (setExternalBuffers bm w)) = updateTriggers w"
  by (simp_all add: setExternalBuffers_def forAttributes_keys forAttributes_updateTriggers
      setExternalBuffer_updateTriggers)

lemma analyzeBuffers_frame:
  "map fst (attributes (fst (analyzeBuffers n w))) = map fst (attributes w)"
  "updateTriggers (fst (analyzeBuffers n w)) = updateTriggers w"
  by (simp_all add: analyzeBuffers_def comp_def case_prod_unfold)

lemma updateBuffers_frame:
  "map fst (attributes (stateOf (updateBuffers conv n dat props w))) = map fst (attributes w)"
  "updateTriggers (stateOf (updateBuffers conv n dat props w)) = updateTriggers w"
proof -
  let ?loop = "forAttributes (updateAttribute conv n dat props (max n 1)) [] (attributes w) w"
  have k: "map fst (attributes (stateOf ?loop)) = map fst (attributes w)"
    by (simp add: forAttributes_keys)
  have t: "updateTriggers (stateOf ?loop) = updateTriggers w"
    by (simp add: forAttributes_updateTriggers updateAttribute_updateTriggers)
  show "map fst (attributes (stateOf (updateBuffers conv n dat props w))) = map fst (attributes w)"
    using k by (cases ?loop) (simp_all add: updateBuffers_def Let_def)
  show "updateTriggers (stateOf (updateBuffers conv n dat props w)) = updateTriggers w"
    using t by (cases ?loop) (simp_all add: updateBuffers_def Let_def)
qed

lemma update_frame:
  "map fst (attributes (stateOf (update conv dat n props buffers ign w))) = map fst (attributes w)"
  "updateTriggers (stateOf (update conv dat n props buffers ign w)) = updateTriggers w"
proof -
  let ?s = "setExternalBuffers buffers w"
  let ?a = "analyzeBuffers n (stateOf ?s)"
  let ?w2 = "emit StatsTimeStart (emit (OnUpdateStart n) (fst ?a))"
  let ?u = "updateBuffers conv n dat props ?w2"
  have e: "map fst (attributes ?w2) = map fst (attributes w)" "updateTriggers ?w2 = updateTriggers w"
    by (simp_all add: emit_def analyzeBuffers_frame setExternalBuffers_frame)
  have u: "map fst (attributes (stateOf ?u)) = map fst (attributes w)"
    "updateTriggers (stateOf ?u) = updateTriggers w"
    by (simp_all add: updateBuffers_frame e)
  have r: "stateOf (update conv dat n props buffers ign w) =
         (case checkExternalBuffers buffers ign w of
            Some e \<Rightarrow> w
          | None \<Rightarrow> (case ?s of
                       Thrown e w1 \<Rightarrow> w1
                     | Done w1 \<Rightarrow> if snd ?a
                                   then (case ?u of Thrown e w3 \<Rightarrow> w3
                                         | Done w3 \<Rightarrow> emit (OnUpdateEnd n) (emit StatsTimeEnd w3))
                                   else fst ?a))"
    by (simp add: update_def split: option.split outcome.split prod.split)
  show "map fst (attributes (stateOf (update conv dat n props buffers ign w))) = map fst (attributes w)"
    unfolding r using u(1) setExternalBuffers_frame(1) [of buffers w] analyzeBuffers_frame(1) [of n "stateOf ?s"]
    by (cases "checkExternalBuffers buffers ign w"; cases ?s; cases ?u) (simp_all add: emit_def)
  show "updateTriggers (stateOf (update conv dat n props buffers ign w)) = updateTriggers w"
    unfolding r using u(2) setExternalBuffers_frame(2) [of buffers w] analyzeBuffers_frame(2) [of n "stateOf ?s"]
    by (cases "checkExternalBuffers buffers ign w"; cases ?s; cases ?u) (simp_all add: emit_def)
qed



section \<open>Invalidating a name after its removal\<close>







section \<open>What one step of an update does\<close>

lemma storeGrows_writeElems:
  assumes "\<And>T es. length (f T es) = length es"
  shows "storeGrows h (writeElems h b f)"
  using assms by (auto simp: storeGrows_def writeElems_def nth_list_update)

lemma storeGrows_allocate: "storeGrows h (fst (allocate T len h))"
  by (simp add: storeGrows_def allocate_def nth_append)

lemma length_stores [simp]:
  "length (foldl (\<lambda>es' (i, v). taStore conv T es' i v) es writes) = length es"
  by (induction writes arbitrary: es) (simp_all add: case_prod_unfold)

lemma progress_emit [simp]: "progress w (emit ev w)"
  by (simp add: progress_def emit_def)

lemma progress_emit_right: "progress w w' \<Longrightarrow> progress w (emit ev w')"
  by (auto simp: progress_def emit_def)

lemma setExternalBuffer_Done:
  assumes "setExternalBuffer bm name a w = Done (a', w')"
  shows "progress w w' \<and> heap w' = heap w \<and> events w' = events w \<and>
         (case map_of bm name of
            None \<Rightarrow> a' = a\<lparr>attr_isExternalBuffer := False\<rparr> \<and> w' = w
          | Some b \<Rightarrow>
              a' = a\<lparr>attr_isExternalBuffer := True, attr_needsUpdate := False,
                     attr_changed := (attr_changed a \<or> attr_value a \<noteq> Some b), attr_value := Some b\<rparr>
              \<and> b < length (heap w)
              \<and> glArrayFromType (typeOrFloat a) True = Inr (arrayType (heap w ! b))
              \<and> w' = w\<lparr>needsRedraw := (needsRedraw w \<or> attr_value a \<noteq> Some b)\<rparr>)"
proof (cases "map_of bm name")
  case None
  with assms show ?thesis by (simp add: setExternalBuffer_def Let_def)
next
  case (Some b)
  show ?thesis
  proof (cases "glArrayFromType (typeOrFloat a) True")
    case (Inl e)
    with assms Some show ?thesis by (simp add: setExternalBuffer_def Let_def typeOrFloat_def)
  next
    case (Inr T)
    with assms Some show ?thesis
      by (auto simp: setExternalBuffer_def Let_def typeOrFloat_def instanceOf_def deref_def progress_def
          split: if_splits)
  qed
qed

lemma standardAccessor_progress:
  "updateBufferViaStandardAccessor conv a dat props w = Done w' \<Longrightarrow>
   progress w w' \<and> needsRedraw w' = needsRedraw w"
  by (auto simp: updateBufferViaStandardAccessor_def Let_def progress_def emit_def
      storeGrows_writeElems split: option.splits if_splits)

lemma callUpdater_progress:
  "callUpdater conv upd a name n dat w = Done w' \<Longrightarrow> progress w w' \<and> needsRedraw w' = needsRedraw w"
  by (auto simp: callUpdater_def Let_def progress_def emit_def
      storeGrows_writeElems split: option.splits if_splits)

lemma checked_Done:
  "checked a name w = Done (a', w') \<Longrightarrow>
   a' = a\<lparr>attr_needsUpdate := False, attr_changed := True\<rparr> \<and> w' = w\<lparr>needsRedraw := True\<rparr>"
  by (auto simp: checked_def finishUpdate_def split: option.splits)

lemma progress_redraw: "progress w w' \<Longrightarrow> progress w (w'\<lparr>needsRedraw := True\<rparr>)"
  by (auto simp: progress_def)

lemma updateBuffer_Done:
  assumes "updateBuffer conv a name n dat props w = Done (a', w')"
  shows "progress w w' \<and> a' = a\<lparr>attr_needsUpdate := False, attr_changed := True\<rparr> \<and> needsRedraw w'
         \<and> (hasComputation a \<or> w' = (emit (OnLog (MissingUpdate name)) w)\<lparr>needsRedraw := True\<rparr>)"
proof (cases "attr_update a")
  case (Some upd)
  let ?w0 = "emit (OnLog (Updating name n)) w"
  from assms Some obtain w1 where c: "callUpdater conv upd a name n dat ?w0 = Done w1"
    and k: "checked a name w1 = Done (a', w')"
    by (auto simp: updateBuffer_def split: outcome.splits)
  from callUpdater_progress [OF c] have "progress w w1"
    using progress_trans [of w ?w0 w1] by simp
  with checked_Done [OF k] Some show ?thesis
    by (simp add: progress_redraw hasComputation_def)
next
  case None
  show ?thesis
  proof (cases "accessorTruthy (attr_accessor a)")
    case True
    from assms None True obtain w1 where c: "updateBufferViaStandardAccessor conv a dat props w = Done w1"
      and k: "checked a name w1 = Done (a', w')"
      by (auto simp: updateBuffer_def split: outcome.splits)
    from standardAccessor_progress [OF c] checked_Done [OF k] True show ?thesis
      by (simp add: progress_redraw hasComputation_def)
  next
    case False
    with assms None show ?thesis
      by (auto simp: updateBuffer_def finishUpdate_def progress_redraw progress_emit_right)
  qed
qed

lemma updateAttribute_Done:
  assumes "updateAttribute conv n dat props c name a w = Done (a', w')"
  shows "progress w w' \<and>
         a' = a\<lparr>attr_needsAlloc := False, attr_needsUpdate := False,
                attr_changed := (attr_changed a \<or> attr_needsAlloc a \<or> attr_needsUpdate a),
                attr_value := (if attr_needsAlloc a then Some (length (heap w)) else attr_value a)\<rparr>
         \<and> (attr_needsAlloc a \<or> attr_needsUpdate a \<or> w' = w)
         \<and> (\<not> attr_needsAlloc a \<or>
              (length (heap w) < length (heap w') \<and> 0 \<le> attr_size a * c
               \<and> length (elems (heap w' ! length (heap w))) = nat (attr_size a * c)
               \<and> glArrayFromType (typeOrFloat a) True = Inr (arrayType (heap w' ! length (heap w)))))
         \<and> ((attr_needsAlloc a \<or> attr_needsUpdate a) \<and> \<not> hasComputation a
              \<longrightarrow> needsRedraw w' \<and> OnLog (MissingUpdate name) \<in> set (events w'))
         \<and> ((attr_needsAlloc a \<or> attr_needsUpdate a) \<longrightarrow> needsRedraw w')"
proof (cases "attr_needsAlloc a")
  case False
  show ?thesis
  proof (cases "attr_needsUpdate a")
    case True
    with False assms have u: "updateBuffer conv a name n dat props w = Done (a', w')"
      by (simp add: updateAttribute_def)
    from updateBuffer_Done [OF u] False True show ?thesis
      by (auto simp: emit_def)
  next
    case False': False
    with False assms show ?thesis by (simp add: updateAttribute_def)
  qed
next
  case True
  from assms True obtain T where T: "glArrayFromType (typeOrFloat a) True = Inr T"
    by (auto simp: updateAttribute_def split: sum.splits)
  from assms True T have nn: "0 \<le> attr_size a * c"
    by (auto simp: updateAttribute_def split: if_splits)
  let ?h1 = "heap w @ [\<lparr>arrayType = T, elems = replicate (nat (attr_size a * c)) (Fin 0)\<rparr>]"
  let ?w1 = "emit (OnLog (Allocated name c)) (w\<lparr>heap := ?h1\<rparr>)"
  let ?a1 = "a\<lparr>attr_value := Some (length (heap w)), attr_needsAlloc := False, attr_needsUpdate := True\<rparr>"
  from assms True T nn have u: "updateBuffer conv ?a1 name n dat props ?w1 = Done (a', w')"
    by (simp add: updateAttribute_def allocate_def Let_def)
  note ub = updateBuffer_Done [OF u]
  have p1: "progress w ?w1"
    by (simp add: progress_def emit_def storeGrows_def nth_append)
  have p: "progress w w'" using p1 ub progress_trans by blast
  have g: "storeGrows ?h1 (heap w')" using ub by (simp add: progress_def emit_def)
  then have new: "length (heap w) < length (heap w')"
    "length (elems (heap w' ! length (heap w))) = nat (attr_size a * c)"
    "arrayType (heap w' ! length (heap w)) = T"
    by (auto simp: storeGrows_def)
  have ev: "\<not> hasComputation a \<longrightarrow> OnLog (MissingUpdate name) \<in> set (events w')"
    using ub by (auto simp: hasComputation_def emit_def)
  show ?thesis
    using p ub True new nn T ev by simp
qed

section \<open>What the loops of an update do\<close>

lemma forAttributes_preserves:
  assumes "forAttributes body visited todo w = Done final"
    and "\<And>name a w a' w'. body name a w = Done (a', w') \<Longrightarrow> g w' = g w"
    and "\<And>w x. g (w\<lparr>attributes := x\<rparr>) = g w"
  shows "g final = g w"
  using assms(1)
proof (induction todo arbitrary: visited w)
  case Nil
  then show ?case using assms(3) by auto
next
  case (Cons na rest)
  obtain name a where na: "na = (name, a)" by (cases na)
  show ?case
  proof (cases "body name a w")
    case (Thrown e r)
    then show ?thesis using Cons.prems na by (cases r) simp
  next
    case (Done r)
    obtain a' w' where r: "r = (a', w')" by (cases r)
    have "forAttributes body (visited @ [(name, a')]) rest w' = Done final"
      using Cons.prems na Done r by simp
    from Cons.IH [OF this] have "g final = g w'" .
    moreover have "g w' = g w" using assms(2) [of name a w a' w'] Done r by simp
    ultimately show ?thesis by simp
  qed
qed

lemma setExternalBuffers_Done:
  fixes w :: "'r world"
  assumes "setExternalBuffers bm w = Done w1"
  shows "progress w w1 \<and> heap w1 = heap w \<and> events w1 = events w \<and>
         list_all2 (\<lambda>(k, a) (k', a'). k' = k \<and>
            (case map_of bm k of
               None \<Rightarrow> a' = a\<lparr>attr_isExternalBuffer := False\<rparr>
             | Some b \<Rightarrow>
                 a' = a\<lparr>attr_isExternalBuffer := True, attr_needsUpdate := False,
                        attr_changed := (attr_changed a \<or> attr_value a \<noteq> Some b), attr_value := Some b\<rparr>
                 \<and> b < length (heap w)
                 \<and> glArrayFromType (typeOrFloat a) True = Inr (arrayType (heap w ! b))))
           (attributes w) (attributes w1)"
proof -
  let ?R = "\<lambda>(k :: string) (a :: 'r attribute) (a' :: 'r attribute) (wx :: 'r world).
            (case map_of bm k of
               None \<Rightarrow> a' = a\<lparr>attr_isExternalBuffer := False\<rparr>
             | Some b \<Rightarrow>
                 a' = a\<lparr>attr_isExternalBuffer := True, attr_needsUpdate := False,
                        attr_changed := (attr_changed a \<or> attr_value a \<noteq> Some b), attr_value := Some b\<rparr>
                 \<and> b < length (heap wx)
                 \<and> glArrayFromType (typeOrFloat a) True = Inr (arrayType (heap wx ! b)))"
  have run: "forAttributes (setExternalBuffer bm) [] (attributes w) w = Done w1"
    using assms by (simp add: setExternalBuffers_def)
  have step: "progress v v' \<and> ?R k a a' v'"
    if "setExternalBuffer bm k a v = Done (a', v')" for k a v a' v'
    using setExternalBuffer_Done [OF that] by (auto split: option.splits)
  have stable: "?R k a a' v'" if "?R k a a' v" "progress v v'" for k a a' v v'
    using that by (auto simp: progress_def storeGrows_def split: option.splits)
  have h: "heap w1 = heap w"
    using run
  proof (rule forAttributes_preserves)
    show "heap v' = heap v" if "setExternalBuffer bm k a v = Done (a', v')" for k a v a' v'
      using setExternalBuffer_Done [OF that] by simp
  qed simp
  have e: "events w1 = events w"
    using run
  proof (rule forAttributes_preserves)
    show "events v' = events v" if "setExternalBuffer bm k a v = Done (a', v')" for k a v a' v'
      using setExternalBuffer_Done [OF that] by simp
  qed simp
  have "progress w w1 \<and>
         (\<exists>todo'. attributes w1 = [] @ todo' \<and>
                   list_all2 (\<lambda>(n, a) (n', a'). n' = n \<and> ?R n a a' w1) (attributes w) todo')"
  proof (rule forAttributes_Done [where R = ?R and ?w0.0 = w, OF run])
    fix k and a a' :: "'r attribute" and v v' :: "'r world"
    assume "setExternalBuffer bm k a v = Done (a', v')"
    then show "progress v v' \<and> ?R k a a' v'" by (rule step)
  next
    fix k and a a' :: "'r attribute" and v v' :: "'r world"
    assume "?R k a a' v" "progress v v'"
    then show "?R k a a' v'" by (rule stable)
  next
    show "progress w w" by simp
  qed
  then obtain todo' where pw: "progress w w1" and t: "attributes w1 = [] @ todo'"
    and la: "list_all2 (\<lambda>(n, a) (n', a'). n' = n \<and> ?R n a a' w1) (attributes w) todo'"
    by blast
  from t have t': "todo' = attributes w1" by simp
  from la have "list_all2 (\<lambda>(n, a) (n', a'). n' = n \<and> ?R n a a' w1) (attributes w) (attributes w1)"
    unfolding t' .
  then have "list_all2 (\<lambda>(n, a) (n', a'). n' = n \<and> ?R n a a' w) (attributes w) (attributes w1)"
    unfolding h .
  with pw h e show ?thesis by (intro conjI)
qed

lemma updateBuffers_Done:
  fixes w :: "'r world"
  assumes "updateBuffers conv n dat props w = Done w3"
  shows "progress w w3 \<and>
         list_all2 (\<lambda>(k, a) (k', a'). k' = k \<and>
            (\<exists>v. a' = a\<lparr>attr_needsAlloc := False, attr_needsUpdate := False,
                         attr_changed := (attr_changed a \<or> attr_needsAlloc a \<or> attr_needsUpdate a),
                         attr_value := v\<rparr>
                 \<and> (if attr_needsAlloc a
                     then \<exists>b. v = Some b \<and> length (heap w) \<le> b \<and> b < length (heap w3)
                            \<and> length (elems (heap w3 ! b)) = nat (attr_size a * max n 1)
                            \<and> 0 \<le> attr_size a * max n 1
                            \<and> glArrayFromType (typeOrFloat a) True = Inr (arrayType (heap w3 ! b))
                     else v = attr_value a))
            \<and> ((attr_needsAlloc a \<or> attr_needsUpdate a) \<and> \<not> hasComputation a
                 \<longrightarrow> OnLog (MissingUpdate k) \<in> set (events w3))
            \<and> ((attr_needsAlloc a \<or> attr_needsUpdate a) \<longrightarrow> needsRedraw w3))
           (attributes w) (attributes w3)"
proof -
  let ?R = "\<lambda>(k :: string) (a :: 'r attribute) (a' :: 'r attribute) (wx :: 'r world).
            (\<exists>v. a' = a\<lparr>attr_needsAlloc := False, attr_needsUpdate := False,
                         attr_changed := (attr_changed a \<or> attr_needsAlloc a \<or> attr_needsUpdate a),
                         attr_value := v\<rparr>
                 \<and> (if attr_needsAlloc a
                     then \<exists>b. v = Some b \<and> length (heap w) \<le> b \<and> b < length (heap wx)
                            \<and> length (elems (heap wx ! b)) = nat (attr_size a * max n 1)
                            \<and> 0 \<le> attr_size a * max n 1
                            \<and> glArrayFromType (typeOrFloat a) True = Inr (arrayType (heap wx ! b))
                     else v = attr_value a))
            \<and> ((attr_needsAlloc a \<or> attr_needsUpdate a) \<and> \<not> hasComputation a
                 \<longrightarrow> OnLog (MissingUpdate k) \<in> set (events wx))
            \<and> ((attr_needsAlloc a \<or> attr_needsUpdate a) \<longrightarrow> needsRedraw wx)"
  from assms obtain wl where
    run: "forAttributes (updateAttribute conv n dat props (max n 1)) [] (attributes w) w = Done wl"
    and w3: "w3 = wl\<lparr>allocedInstances := max n 1\<rparr>"
    by (auto simp: updateBuffers_def Let_def split: outcome.splits)
  have step: "progress v v' \<and> ?R k a a' v'"
    if "progress w v" "updateAttribute conv n dat props (max n 1) k a v = Done (a', v')" for k a v a' v'
  proof -
    note u = updateAttribute_Done [OF that(2)]
    have le: "length (heap w) \<le> length (heap v)" using that(1) by (simp add: progress_def storeGrows_def)
    show ?thesis
    proof (cases "attr_needsAlloc a")
      case True
      with u le show ?thesis by auto
    next
      case False
      with u show ?thesis by auto
    qed
  qed
  have stable: "?R k a a' v'" if r: "?R k a a' v" and p: "progress v v'" for k a a' v v'
  proof -
    from p have g: "storeGrows (heap v) (heap v')" and ev: "set (events v) \<subseteq> set (events v')"
      and rd: "needsRedraw v \<longrightarrow> needsRedraw v'"
      by (auto simp: progress_def)
    from r obtain x where a': "a' = a\<lparr>attr_needsAlloc := False, attr_needsUpdate := False,
                         attr_changed := (attr_changed a \<or> attr_needsAlloc a \<or> attr_needsUpdate a),
                         attr_value := x\<rparr>"
      and x: "if attr_needsAlloc a
                     then \<exists>b. x = Some b \<and> length (heap w) \<le> b \<and> b < length (heap v)
                            \<and> length (elems (heap v ! b)) = nat (attr_size a * max n 1)
                            \<and> 0 \<le> attr_size a * max n 1
                            \<and> glArrayFromType (typeOrFloat a) True = Inr (arrayType (heap v ! b))
                     else x = attr_value a"
      by blast
    have x': "if attr_needsAlloc a
                     then \<exists>b. x = Some b \<and> length (heap w) \<le> b \<and> b < length (heap v')
                            \<and> length (elems (heap v' ! b)) = nat (attr_size a * max n 1)
                            \<and> 0 \<le> attr_size a * max n 1
                            \<and> glArrayFromType (typeOrFloat a) True = Inr (arrayType (heap v' ! b))
                     else x = attr_value a"
    proof (cases "attr_needsAlloc a")
      case True
      with x obtain b where b: "x = Some b" "length (heap w) \<le> b" "b < length (heap v)"
        "length (elems (heap v ! b)) = nat (attr_size a * max n 1)" "0 \<le> attr_size a * max n 1"
        "glArrayFromType (typeOrFloat a) True = Inr (arrayType (heap v ! b))"
        by auto
      from g b(3) have "b < length (heap v')" "arrayType (heap v' ! b) = arrayType (heap v ! b)"
        "length (elems (heap v' ! b)) = length (elems (heap v ! b))"
        by (auto simp: storeGrows_def)
      with b True show ?thesis by auto
    next
      case False
      with x show ?thesis by simp
    qed
    from r have r2: "((attr_needsAlloc a \<or> attr_needsUpdate a) \<and> \<not> hasComputation a
                 \<longrightarrow> OnLog (MissingUpdate k) \<in> set (events v))
            \<and> ((attr_needsAlloc a \<or> attr_needsUpdate a) \<longrightarrow> needsRedraw v)"
      by (elim conjE) (intro conjI)
    from r2 ev rd have rest1: "(attr_needsAlloc a \<or> attr_needsUpdate a) \<and> \<not> hasComputation a
                 \<longrightarrow> OnLog (MissingUpdate k) \<in> set (events v')"
      and rest2: "(attr_needsAlloc a \<or> attr_needsUpdate a) \<longrightarrow> needsRedraw v'"
      by blast+
    from r2 ev rd have rest: "((attr_needsAlloc a \<or> attr_needsUpdate a) \<and> \<not> hasComputation a
                 \<longrightarrow> OnLog (MissingUpdate k) \<in> set (events v'))
            \<and> ((attr_needsAlloc a \<or> attr_needsUpdate a) \<longrightarrow> needsRedraw v')"
      by blast
    from a' x' have ex: "\<exists>v. a' = a\<lparr>attr_needsAlloc := False, attr_needsUpdate := False,
                         attr_changed := (attr_changed a \<or> attr_needsAlloc a \<or> attr_needsUpdate a),
                         attr_value := v\<rparr>
                 \<and> (if attr_needsAlloc a
                     then \<exists>b. v = Some b \<and> length (heap w) \<le> b \<and> b < length (heap v')
                            \<and> length (elems (heap v' ! b)) = nat (attr_size a * max n 1)
                            \<and> 0 \<le> attr_size a * max n 1
                            \<and> glArrayFromType (typeOrFloat a) True = Inr (arrayType (heap v' ! b))
                     else v = attr_value a)"
      by (intro exI [of _ x] conjI)
    from ex rest1 rest2 show ?thesis by (intro conjI) assumption+
  qed
  have fin: "progress w wl \<and>
         (\<exists>todo'. attributes wl = [] @ todo' \<and>
                   list_all2 (\<lambda>(n, a) (n', a'). n' = n \<and> ?R n a a' wl) (attributes w) todo')"
  proof (rule forAttributes_Done [where R = ?R and ?w0.0 = w, OF run])
    fix k and a a' :: "'r attribute" and v v' :: "'r world"
    assume "progress w v" "updateAttribute conv n dat props (max n 1) k a v = Done (a', v')"
    then show "progress v v' \<and> ?R k a a' v'" by (rule step)
  next
    fix k and a a' :: "'r attribute" and v v' :: "'r world"
    assume "?R k a a' v" "progress v v'"
    then show "?R k a a' v'" by (rule stable)
  next
    show "progress w w" by simp
  qed
  then obtain todo' where pw: "progress w wl" and t: "attributes wl = [] @ todo'"
    and la: "list_all2 (\<lambda>(n, a) (n', a'). n' = n \<and> ?R n a a' wl) (attributes w) todo'"
    by blast
  from t have t': "todo' = attributes wl" by simp
  have eq: "heap wl = heap w3" "events wl = events w3" "needsRedraw wl = needsRedraw w3"
    "attributes wl = attributes w3"
    using w3 by simp_all
  have p3: "progress wl w3" using w3 by (simp add: progress_def)
  from la have "list_all2 (\<lambda>(n, a) (n', a'). n' = n \<and> ?R n a a' w3) (attributes w) (attributes w3)"
    unfolding t' eq .
  moreover have "progress w w3" using pw p3 by (rule progress_trans)
  ultimately show ?thesis by (intro conjI)
qed

section \<open>The update cycle\<close>

lemma update_Done:
  assumes "update conv dat n props buffers ign w = Done w'"
  shows "\<exists>w1. checkExternalBuffers buffers ign w = None \<and> setExternalBuffers buffers w = Done w1 \<and>
           (if snd (analyzeBuffers n w1)
            then \<exists>w3. updateBuffers conv n dat props
                         (emit StatsTimeStart (emit (OnUpdateStart n) (fst (analyzeBuffers n w1)))) = Done w3
                       \<and> w' = emit (OnUpdateEnd n) (emit StatsTimeEnd w3)
            else w' = fst (analyzeBuffers n w1))"
  using assms
  by (auto simp: update_def split: option.splits outcome.splits prod.splits if_splits)

lemma analyzeBuffers_attributes:
  "attributes (fst (analyzeBuffers n w)) =
     map (\<lambda>(k, a). (k, fst (analyzeAttribute (heap w) n a))) (attributes w)"
  "heap (fst (analyzeBuffers n w)) = heap w" "events (fst (analyzeBuffers n w)) = events w"
  "needsRedraw (fst (analyzeBuffers n w)) = needsRedraw w"
  by (simp_all add: analyzeBuffers_def)

lemma analyzeBuffers_needed:
  "snd (analyzeBuffers n w) = (\<exists>(k, a) \<in> set (attributes w). snd (analyzeAttribute (heap w) n a))"
  by (simp add: analyzeBuffers_def list_ex_iff)

section \<open>Attributes without a computation\<close>





section \<open>An update after an aborted update\<close>

lemmas evaluation =
  add_def validateAttributeDefinition_def attributeSize_def objectAssign_def
  mapUpdateTriggersToAttributes_def newManager_def attributeData_def pushTrigger_def
  emit_def update_def checkExternalBuffers_def setExternalBuffers_def
  setExternalBuffer_def analyzeBuffers_def analyzeAttribute_def hasComputation_def
  updateBuffers_def updateAttribute_def updateBuffer_def finishUpdate_def Let_def
  positionDescriptor_def weightDescriptor_def bothProps_def weightOnlyProps_def
  typeOrFloat_def instanceOf_def deref_def thisNumInstancesTimes_def capacityBelow_def
  js_div_int_def allocate_def updateBufferViaStandardAccessor_def checked_def
  checkAttributeArray_def writeElems_def packRecord_def taStore_def packed_def component_def
  defaultComponents_def exactConv_def getChangedAttributes_def eval_nat_numeral

lemma twoAttributes_aborted:
  "update exactConv [(), ()] 2 weightOnlyProps [] False twoAttributes =
     Thrown (AssertionError ''accessor \"getPosition\" is not a function'') afterAbort"
  by (simp add: twoAttributes_def afterAbort_def evaluation)

lemma afterAbort_override:
  "update exactConv [(), ()] 2 bothProps [(''weight'', 0)] False afterAbort = Done afterOverride"
  by (simp add: twoAttributes_def afterAbort_def afterOverride_def evaluation)

lemma afterOverride_repeat:
  "update exactConv [(), ()] 2 bothProps [(''weight'', 0)] False
     (snd (getChangedAttributes True afterOverride)) = Done afterRepeat"
  by (simp add: twoAttributes_def afterAbort_def afterOverride_def afterRepeat_def evaluation)

lemma twoAttributes_filled:
  "update exactConv [(), ()] 2 bothProps [] False twoAttributes = Done filledTwo"
  by (simp add: twoAttributes_def filledTwo_def evaluation)

lemma filledTwo_aborted:
  "update exactConv [(), (), ()] 3 weightOnlyProps [] False filledTwo =
     Thrown (AssertionError ''accessor \"getPosition\" is not a function'') abortedThree"
  by (simp add: twoAttributes_def filledTwo_def abortedThree_def evaluation)

lemma abortedThree_filled:
  "update exactConv [(), ()] 2 bothProps [] False abortedThree = Done filledAgain"
  by (simp add: twoAttributes_def filledTwo_def abortedThree_def filledAgain_def evaluation)

text \<open>
  An update that is aborted after the planner has run leaves \<^verbatim>\<open>needsAlloc\<close> set on the attributes
  it did not reach: \<^verbatim>\<open>_analyzeBuffers\<close> sets the flag, only \<^verbatim>\<open>_updateBuffers\<close> clears it, and neither
  \<^verbatim>\<open>_setExternalBuffers\<close> nor the planner looks at a flag that is already set. The next update that
  has any work to do then allocates a buffer for such an attribute and fills it, whatever its
  capacity and whether or not an external buffer was accepted for it.

  Claim C7. The update without \<^verbatim>\<open>getPosition\<close> is aborted at \<^verbatim>\<open>position\<close> and leaves \<^verbatim>\<open>needsAlloc\<close>
  set on \<^verbatim>\<open>weight\<close>. The next update passes the application's array (address 0) as the buffer of
  \<^verbatim>\<open>weight\<close>; it is accepted, and the same call then replaces it by a new array (address 2) and
  calls \<^verbatim>\<open>getWeight\<close> for both records.
\<close>

theorem C7_override_after_abort:
  "update exactConv [(), ()] 2 weightOnlyProps [] False twoAttributes =
     Thrown (AssertionError ''accessor \"getPosition\" is not a function'') afterAbort
   \<and> update exactConv [(), ()] 2 bothProps [(''weight'', 0)] False afterAbort = Done afterOverride
   \<and> AccessorCall ''getWeight'' () \<notin> set (events afterAbort)
   \<and> AccessorCall ''getWeight'' () \<in> set (events afterOverride)
   \<and> map_of (attributes afterOverride) ''weight'' =
        Some ((attributeData 1 weightDescriptor)
                \<lparr>attr_isExternalBuffer := True, attr_changed := True, attr_value := Some 2\<rparr>)"
  using twoAttributes_aborted afterAbort_override
  by (simp add: afterAbort_def afterOverride_def)

text \<open>
  Claim C2. After an update of two instances, \<^verbatim>\<open>weight\<close> owns the array at address 2, of two
  elements: with one component per record its capacity is 2. The update of three instances
  without \<^verbatim>\<open>getPosition\<close> is aborted at \<^verbatim>\<open>position\<close>. The next update has two instances, which the
  buffer of \<^verbatim>\<open>weight\<close> can hold, and still gives \<^verbatim>\<open>weight\<close> a new array (address 4).
\<close>

theorem C2_reallocation_after_abort:
  "update exactConv [(), ()] 2 bothProps [] False twoAttributes = Done filledTwo
   \<and> update exactConv [(), (), ()] 3 weightOnlyProps [] False filledTwo =
       Thrown (AssertionError ''accessor \"getPosition\" is not a function'') abortedThree
   \<and> update exactConv [(), ()] 2 bothProps [] False abortedThree = Done filledAgain
   \<and> map_of (attributes abortedThree) ''weight'' =
        Some ((attributeData 1 weightDescriptor)
                \<lparr>attr_needsAlloc := True, attr_changed := True, attr_value := Some 2\<rparr>)
   \<and> length (elems (heap abortedThree ! 2)) = 2
   \<and> map_of (attributes filledAgain) ''weight'' =
        Some ((attributeData 1 weightDescriptor)\<lparr>attr_changed := True, attr_value := Some 4\<rparr>)"
  using twoAttributes_filled filledTwo_aborted abortedThree_filled
  by (simp add: filledTwo_def abortedThree_def filledAgain_def)

text \<open>
  Claim C3. The update that overrides \<^verbatim>\<open>weight\<close> after the aborted one returns; the changed flags
  are read and cleared; the same update is made again, with the same data, count, props and
  buffers. The planner finds nothing to do and no hook or callback is called (the trace is the
  same), but the buffer of \<^verbatim>\<open>weight\<close> is no longer the external one, so accepting it again raises
  \<^verbatim>\<open>changed\<close> on \<^verbatim>\<open>weight\<close>.
\<close>

theorem C3_changed_after_repeat:
  "update exactConv [(), ()] 2 weightOnlyProps [] False twoAttributes =
     Thrown (AssertionError ''accessor \"getPosition\" is not a function'') afterAbort
   \<and> update exactConv [(), ()] 2 bothProps [(''weight'', 0)] False afterAbort = Done afterOverride
   \<and> map (attr_changed \<circ> snd) (attributes (snd (getChangedAttributes True afterOverride))) = [False, False]
   \<and> update exactConv [(), ()] 2 bothProps [(''weight'', 0)] False
        (snd (getChangedAttributes True afterOverride)) = Done afterRepeat
   \<and> events afterRepeat = events afterOverride
   \<and> map (attr_changed \<circ> snd) (attributes afterRepeat) = [False, True]"
  using twoAttributes_aborted afterAbort_override afterOverride_repeat
  by (simp add: afterOverride_def afterRepeat_def getChangedAttributes_def attributeData_def)

section \<open>Updates in a state without pending allocations\<close>

text \<open>
  Where \<^verbatim>\<open>needsAlloc\<close> is not pending on an attribute, the update treats it as the planner of that
  same call decides. An attribute whose external buffer is accepted leaves the call exactly as
  \<^verbatim>\<open>_setExternalBuffers\<close> made it: the executor visits it and does nothing, and \<^verbatim>\<open>changed\<close> is
  raised only if the buffer is not the one it had.
\<close>

lemma capacityBelow_iff:
  assumes "b < length h" "1 \<le> sz"
  shows "capacityBelow h b sz n \<longleftrightarrow> int (length (elems (h ! b))) < n * sz"
proof -
  have "real_of_int (int (length (elems (h ! b)))) / real_of_int sz < real_of_int n
        \<longleftrightarrow> real_of_int (int (length (elems (h ! b)))) < real_of_int n * real_of_int sz"
    using assms(2) by (simp add: pos_divide_less_eq)
  also have "\<dots> \<longleftrightarrow> int (length (elems (h ! b))) < n * sz"
    by (metis of_int_less_iff of_int_mult)
  finally show ?thesis
    using assms by (simp add: capacityBelow_def deref_def js_div_int_def)
qed

lemma untouched_step:
  "\<not> attr_needsAlloc a \<Longrightarrow> \<not> attr_needsUpdate a \<Longrightarrow>
   updateAttribute conv n dat props c name a v = Done (a, v)"
  by (simp add: updateAttribute_def)

lemma accepted_buffer_not_computed:
  fixes w :: "'r world"
  assumes run: "update conv dat n props buffers ign w = Done w'"
    and at: "i < length (attributes w)" "attributes w ! i = (name, a)"
    and buf: "map_of buffers name = Some b"
    and na: "\<not> attr_needsAlloc a"
  shows "attributes w' ! i =
           (name, a\<lparr>attr_isExternalBuffer := True, attr_needsUpdate := False,
                    attr_changed := (attr_changed a \<or> attr_value a \<noteq> Some b), attr_value := Some b\<rparr>)"
proof -
  let ?a1 = "a\<lparr>attr_isExternalBuffer := True, attr_needsUpdate := False,
                attr_changed := (attr_changed a \<or> attr_value a \<noteq> Some b), attr_value := Some b\<rparr>"
  from update_Done [OF run] obtain w1 where s: "setExternalBuffers buffers w = Done w1"
    and rest: "if snd (analyzeBuffers n w1)
            then \<exists>w3. updateBuffers conv n dat props
                         (emit StatsTimeStart (emit (OnUpdateStart n) (fst (analyzeBuffers n w1)))) = Done w3
                       \<and> w' = emit (OnUpdateEnd n) (emit StatsTimeEnd w3)
            else w' = fst (analyzeBuffers n w1)"
    by blast
  from setExternalBuffers_Done [OF s]
  have l1: "list_all2 (\<lambda>(k, a) (k', a'). k' = k \<and>
            (case map_of buffers k of
               None \<Rightarrow> a' = a\<lparr>attr_isExternalBuffer := False\<rparr>
             | Some b \<Rightarrow>
                 a' = a\<lparr>attr_isExternalBuffer := True, attr_needsUpdate := False,
                        attr_changed := (attr_changed a \<or> attr_value a \<noteq> Some b), attr_value := Some b\<rparr>
                 \<and> b < length (heap w)
                 \<and> glArrayFromType (typeOrFloat a) True = Inr (arrayType (heap w ! b))))
           (attributes w) (attributes w1)"
    by (elim conjE)
  have len1: "length (attributes w1) = length (attributes w)"
    using l1 by (simp add: list_all2_lengthD)
  have at1: "attributes w1 ! i = (name, ?a1)"
    using list_all2_nthD [OF l1 at(1)] at(2) buf by (cases "attributes w1 ! i") simp
  have an: "analyzeAttribute (heap w1) n ?a1 = (?a1, False)"
    by (simp add: analyzeAttribute_def)
  let ?w2 = "fst (analyzeBuffers n w1)"
  have at2: "attributes ?w2 ! i = (name, ?a1)"
    using at1 len1 at(1) an by (simp add: analyzeBuffers_attributes)
  have len2: "length (attributes ?w2) = length (attributes w)"
    using len1 by (simp add: analyzeBuffers_attributes)
  show ?thesis
  proof (cases "snd (analyzeBuffers n w1)")
    case False
    with rest at2 show ?thesis by simp
  next
    case True
    let ?w2e = "emit StatsTimeStart (emit (OnUpdateStart n) ?w2)"
    from rest True obtain w3 where u: "updateBuffers conv n dat props ?w2e = Done w3"
      and w': "w' = emit (OnUpdateEnd n) (emit StatsTimeEnd w3)"
      by auto
    have at2e: "attributes ?w2e ! i = (name, ?a1)" "i < length (attributes ?w2e)"
      using at2 len2 at(1) by (simp_all add: emit_def)
    from updateBuffers_Done [OF u]
    have l3: "list_all2 (\<lambda>(k, a) (k', a'). k' = k \<and>
            (\<exists>v. a' = a\<lparr>attr_needsAlloc := False, attr_needsUpdate := False,
                         attr_changed := (attr_changed a \<or> attr_needsAlloc a \<or> attr_needsUpdate a),
                         attr_value := v\<rparr>
                 \<and> (if attr_needsAlloc a
                     then \<exists>b. v = Some b \<and> length (heap ?w2e) \<le> b \<and> b < length (heap w3)
                            \<and> length (elems (heap w3 ! b)) = nat (attr_size a * max n 1)
                            \<and> 0 \<le> attr_size a * max n 1
                            \<and> glArrayFromType (typeOrFloat a) True = Inr (arrayType (heap w3 ! b))
                     else v = attr_value a))
            \<and> ((attr_needsAlloc a \<or> attr_needsUpdate a) \<and> \<not> hasComputation a
                 \<longrightarrow> OnLog (MissingUpdate k) \<in> set (events w3))
            \<and> ((attr_needsAlloc a \<or> attr_needsUpdate a) \<longrightarrow> needsRedraw w3))
           (attributes ?w2e) (attributes w3)"
      by (elim conjE)
    obtain k3 a3 where p3: "attributes w3 ! i = (k3, a3)" by (cases "attributes w3 ! i")
    from list_all2_nthD [OF l3 at2e(2)] at2e(1) p3 na
    have "k3 = name \<and> a3 = ?a1" by auto
    then show ?thesis using p3 w' by (simp add: emit_def)
  qed
qed

text \<open>
  An attribute with a computation, a buffer and no external buffer in this call keeps its buffer
  when the instance count is at most its capacity, and otherwise gets a new array (an address the
  store did not have) of exactly \<open>size * max numInstances 1\<close> elements.
\<close>

lemma buffer_kept_or_grown:
  fixes w :: "'r world"
  assumes run: "update conv dat n props buffers ign w = Done w'"
    and at: "i < length (attributes w)" "attributes w ! i = (name, a)"
    and nobuf: "map_of buffers name = None"
    and comp: "hasComputation a"
    and na: "\<not> attr_needsAlloc a"
    and val: "attr_value a = Some b" "b < length (heap w)"
    and sz: "1 \<le> attr_size a"
  shows "\<exists>a'. attributes w' ! i = (name, a') \<and>
           (if n * attr_size a \<le> int (length (elems (heap w ! b)))
            then attr_value a' = Some b
            else \<exists>b'. attr_value a' = Some b' \<and> length (heap w) \<le> b' \<and> b' < length (heap w')
                   \<and> length (elems (heap w' ! b')) = nat (attr_size a * max n 1))"
proof -
  let ?a1 = "a\<lparr>attr_isExternalBuffer := False\<rparr>"
  from update_Done [OF run] obtain w1 where s: "setExternalBuffers buffers w = Done w1"
    and rest: "if snd (analyzeBuffers n w1)
            then \<exists>w3. updateBuffers conv n dat props
                         (emit StatsTimeStart (emit (OnUpdateStart n) (fst (analyzeBuffers n w1)))) = Done w3
                       \<and> w' = emit (OnUpdateEnd n) (emit StatsTimeEnd w3)
            else w' = fst (analyzeBuffers n w1)"
    by blast
  note sb = setExternalBuffers_Done [OF s]
  have h1: "heap w1 = heap w"
    using sb by (elim conjE)
  from sb
  have l1: "list_all2 (\<lambda>(k, a) (k', a'). k' = k \<and>
            (case map_of buffers k of
               None \<Rightarrow> a' = a\<lparr>attr_isExternalBuffer := False\<rparr>
             | Some b \<Rightarrow>
                 a' = a\<lparr>attr_isExternalBuffer := True, attr_needsUpdate := False,
                        attr_changed := (attr_changed a \<or> attr_value a \<noteq> Some b), attr_value := Some b\<rparr>
                 \<and> b < length (heap w)
                 \<and> glArrayFromType (typeOrFloat a) True = Inr (arrayType (heap w ! b))))
           (attributes w) (attributes w1)"
    by (elim conjE)
  have len1: "length (attributes w1) = length (attributes w)"
    using l1 by (simp add: list_all2_lengthD)
  have at1: "attributes w1 ! i = (name, ?a1)"
    using list_all2_nthD [OF l1 at(1)] at(2) nobuf by (cases "attributes w1 ! i") simp
  have hc: "hasComputation ?a1" using comp by (simp add: hasComputation_def)
  let ?below = "\<not> n * attr_size a \<le> int (length (elems (heap w ! b)))"
  have cb: "capacityBelow (heap w1) b (attr_size a) n = ?below"
    using capacityBelow_iff [OF val(2) sz, of n] h1 by auto
  let ?a2 = "fst (analyzeAttribute (heap w1) n ?a1)"
  have a2: "?a2 = (if ?below then ?a1\<lparr>attr_needsAlloc := True\<rparr> else ?a1)"
    using hc val(1) cb by (simp add: analyzeAttribute_def Let_def)
  have needed2: "?below \<Longrightarrow> snd (analyzeAttribute (heap w1) n ?a1)"
    using hc val(1) cb by (simp add: analyzeAttribute_def Let_def)
  let ?w2 = "fst (analyzeBuffers n w1)"
  have at2: "attributes ?w2 ! i = (name, ?a2)"
    using at1 len1 at(1) by (simp add: analyzeBuffers_attributes)
  have len2: "length (attributes ?w2) = length (attributes w)"
    using len1 by (simp add: analyzeBuffers_attributes)
  have mem: "(name, ?a1) \<in> set (attributes w1)"
    using at1 len1 at(1) by (metis nth_mem)
  show ?thesis
  proof (cases "snd (analyzeBuffers n w1)")
    case False
    have "\<not> ?below"
    proof
      assume "?below"
      from needed2 [OF this] mem have "snd (analyzeBuffers n w1)"
        unfolding analyzeBuffers_needed by force
      with False show False by simp
    qed
    with rest False at2 a2 val show ?thesis by simp
  next
    case True
    let ?w2e = "emit StatsTimeStart (emit (OnUpdateStart n) ?w2)"
    from rest True obtain w3 where u: "updateBuffers conv n dat props ?w2e = Done w3"
      and w': "w' = emit (OnUpdateEnd n) (emit StatsTimeEnd w3)"
      by auto
    have at2e: "attributes ?w2e ! i = (name, ?a2)" "i < length (attributes ?w2e)"
      using at2 len2 at(1) by (simp_all add: emit_def)
    have h2e: "heap ?w2e = heap w" by (simp add: emit_def analyzeBuffers_attributes h1)
    from updateBuffers_Done [OF u]
    have l3: "list_all2 (\<lambda>(k, a) (k', a'). k' = k \<and>
            (\<exists>v. a' = a\<lparr>attr_needsAlloc := False, attr_needsUpdate := False,
                         attr_changed := (attr_changed a \<or> attr_needsAlloc a \<or> attr_needsUpdate a),
                         attr_value := v\<rparr>
                 \<and> (if attr_needsAlloc a
                     then \<exists>b. v = Some b \<and> length (heap ?w2e) \<le> b \<and> b < length (heap w3)
                            \<and> length (elems (heap w3 ! b)) = nat (attr_size a * max n 1)
                            \<and> 0 \<le> attr_size a * max n 1
                            \<and> glArrayFromType (typeOrFloat a) True = Inr (arrayType (heap w3 ! b))
                     else v = attr_value a))
            \<and> ((attr_needsAlloc a \<or> attr_needsUpdate a) \<and> \<not> hasComputation a
                 \<longrightarrow> OnLog (MissingUpdate k) \<in> set (events w3))
            \<and> ((attr_needsAlloc a \<or> attr_needsUpdate a) \<longrightarrow> needsRedraw w3))
           (attributes ?w2e) (attributes w3)"
      by (elim conjE)
    obtain k3 a3 where p3: "attributes w3 ! i = (k3, a3)" by (cases "attributes w3 ! i")
    have hw': "heap w' = heap w3" "attributes w' = attributes w3" using w' by (simp_all add: emit_def)
    show ?thesis
    proof (cases ?below)
      case True
      with a2 have a2': "?a2 = ?a1\<lparr>attr_needsAlloc := True\<rparr>" by simp
      from list_all2_nthD [OF l3 at2e(2)] at2e(1) p3 a2'
      obtain b' where "k3 = name" "attr_value a3 = Some b'" "length (heap ?w2e) \<le> b'" "b' < length (heap w3)"
        "length (elems (heap w3 ! b')) = nat (attr_size a * max n 1)"
        by auto
      with True p3 hw' h2e show ?thesis by auto
    next
      case False
      with a2 have a2': "?a2 = ?a1" by simp
      from list_all2_nthD [OF l3 at2e(2)] at2e(1) p3 a2' na
      have "k3 = name" "attr_value a3 = attr_value a" by auto
      with False p3 hw' val show ?thesis by auto
    qed
  qed
qed

section \<open>Repeating an update\<close>

lemma forAttributes_identity:
  assumes "\<And>k a. (k, a) \<in> set todo \<Longrightarrow> body k a w = Done (a, w)"
  shows "forAttributes body visited todo w = Done (w\<lparr>attributes := visited @ todo\<rparr>)"
  using assms
proof (induction todo arbitrary: visited)
  case Nil
  then show ?case by simp
next
  case (Cons ka rest)
  obtain k a where ka: "ka = (k, a)" by (cases ka)
  have "body k a w = Done (a, w)" using Cons.prems ka by simp
  moreover have "forAttributes body (visited @ [(k, a)]) rest w
                   = Done (w\<lparr>attributes := (visited @ [(k, a)]) @ rest\<rparr>)"
    using Cons.prems by (intro Cons.IH) simp
  ultimately show ?case using ka by simp
qed

lemma resting_setExternalBuffer:
  assumes "restingAttribute bm n (heap w) k a"
  shows "setExternalBuffer bm k a w = Done (a, w)"
proof (cases "map_of bm k")
  case None
  with assms show ?thesis
    by (simp add: setExternalBuffer_def restingAttribute_def)
next
  case (Some b)
  with assms show ?thesis
    by (simp add: setExternalBuffer_def restingAttribute_def Let_def instanceOf_def deref_def
        size_check_never_fires typeOrFloat_def)
qed

lemma resting_analyzeAttribute:
  assumes "restingAttribute bm n h k a"
  shows "analyzeAttribute h n a = (a, False)"
proof (cases "map_of bm k")
  case None
  with assms show ?thesis
    by (auto simp: analyzeAttribute_def restingAttribute_def Let_def split: option.splits)
next
  case (Some b)
  with assms show ?thesis
    by (simp add: analyzeAttribute_def restingAttribute_def)
qed

lemma atRest_update:
  assumes rest: "atRest bm n w" and known: "checkExternalBuffers bm ign w = None"
  shows "update conv dat n props bm ign w = Done w"
proof -
  have each: "restingAttribute bm n (heap w) k a" if "(k, a) \<in> set (attributes w)" for k a
    using rest that by (auto simp: atRest_def list_all_iff)
  have "forAttributes (setExternalBuffer bm) [] (attributes w) w = Done (w\<lparr>attributes := [] @ attributes w\<rparr>)"
  proof (rule forAttributes_identity)
    fix k a
    assume "(k, a) \<in> set (attributes w)"
    then have "restingAttribute bm n (heap w) k a" by (rule each)
    then show "setExternalBuffer bm k a w = Done (a, w)" by (rule resting_setExternalBuffer)
  qed
  then have s: "setExternalBuffers bm w = Done w"
    by (simp add: setExternalBuffers_def)
  have an: "analyzeAttribute (heap w) n a = (a, False)" if "(k, a) \<in> set (attributes w)" for k a
    using resting_analyzeAttribute [OF each [OF that]] .
  have "map (\<lambda>(k, a). (k, fst (analyzeAttribute (heap w) n a))) (attributes w) = attributes w"
  proof (rule map_idI)
    fix x assume x: "x \<in> set (attributes w)"
    obtain k a where "x = (k, a)" by (cases x)
    with x an [of k a] show "(case x of (k, a) \<Rightarrow> (k, fst (analyzeAttribute (heap w) n a))) = x"
      by simp
  qed
  moreover have "\<not> list_ex (\<lambda>(k, a). snd (analyzeAttribute (heap w) n a)) (attributes w)"
    using an by (auto simp: list_ex_iff)
  ultimately have a: "analyzeBuffers n w = (w, False)"
    by (simp add: analyzeBuffers_def)
  show ?thesis using known s a by (simp add: update_def)
qed

lemma fresh_capacity:
  assumes "length (elems (h ! b)) = nat (sz * max n 1)" "0 \<le> sz * max n 1" "b < length h"
  shows "\<not> capacityBelow h b sz n"
proof (cases "sz = 0")
  case True
  with assms show ?thesis by (simp add: capacityBelow_def deref_def js_div_int_def)
next
  case False
  have m: "1 \<le> max n 1" by simp
  have pos: "0 < sz"
  proof (rule ccontr)
    assume "\<not> 0 < sz"
    with False have "sz < 0" by simp
    then have "sz * max n 1 < 0" using m by (simp add: mult_neg_pos)
    with assms(2) show False by simp
  qed
  have "real_of_int (int (nat (sz * max n 1))) / real_of_int sz = real_of_int (max n 1)"
    using assms(2) pos by simp
  moreover have "\<not> real_of_int (max n 1) < real_of_int n" by simp
  ultimately show ?thesis
    using assms(1,3) False by (simp add: capacityBelow_def deref_def js_div_int_def)
qed

lemma capacityBelow_stable:
  "storeGrows h h' \<Longrightarrow> b < length h \<Longrightarrow> capacityBelow h' b sz n = capacityBelow h b sz n"
  by (simp add: storeGrows_def capacityBelow_def deref_def)

lemma update_leaves_atRest:
  fixes w :: "'r world"
  assumes run: "update conv dat n props bm ign w = Done w'"
    and os: "overridesSettled bm w" and bs: "buffersInStore w"
  shows "atRest bm n w'"
proof -
  from update_Done [OF run] obtain w1 where s: "setExternalBuffers bm w = Done w1"
    and rest: "if snd (analyzeBuffers n w1)
            then \<exists>w3. updateBuffers conv n dat props
                         (emit StatsTimeStart (emit (OnUpdateStart n) (fst (analyzeBuffers n w1)))) = Done w3
                       \<and> w' = emit (OnUpdateEnd n) (emit StatsTimeEnd w3)
            else w' = fst (analyzeBuffers n w1)"
    by blast
  note sb = setExternalBuffers_Done [OF s]
  have h1: "heap w1 = heap w" using sb by (elim conjE)
  from sb
  have l1: "list_all2 (\<lambda>(k, a) (k', a'). k' = k \<and>
            (case map_of bm k of
               None \<Rightarrow> a' = a\<lparr>attr_isExternalBuffer := False\<rparr>
             | Some b \<Rightarrow>
                 a' = a\<lparr>attr_isExternalBuffer := True, attr_needsUpdate := False,
                        attr_changed := (attr_changed a \<or> attr_value a \<noteq> Some b), attr_value := Some b\<rparr>
                 \<and> b < length (heap w)
                 \<and> glArrayFromType (typeOrFloat a) True = Inr (arrayType (heap w ! b))))
           (attributes w) (attributes w1)"
    by (elim conjE)
  have len1: "length (attributes w1) = length (attributes w)"
    using l1 by (simp add: list_all2_lengthD)
  let ?w2 = "fst (analyzeBuffers n w1)"
  have len2: "length (attributes ?w2) = length (attributes w)"
    using len1 by (simp add: analyzeBuffers_attributes)
  have len': "length (attributes w') = length (attributes w)"
    using update_frame(1) [of conv dat n props bm ign w] run by (metis length_map stateOf.simps(1))
  have key: "restingAttribute bm n (heap w') (fst (attributes w' ! i)) (snd (attributes w' ! i))"
    if i: "i < length (attributes w)" for i
  proof -
    obtain k a where ka: "attributes w ! i = (k, a)" by (cases "attributes w ! i")
    obtain k1 a1 where ka1: "attributes w1 ! i = (k1, a1)" by (cases "attributes w1 ! i")
    from list_all2_nthD [OF l1 i] ka ka1
    have k1: "k1 = k"
      and a1: "case map_of bm k of
               None \<Rightarrow> a1 = a\<lparr>attr_isExternalBuffer := False\<rparr>
             | Some b \<Rightarrow>
                 a1 = a\<lparr>attr_isExternalBuffer := True, attr_needsUpdate := False,
                        attr_changed := (attr_changed a \<or> attr_value a \<noteq> Some b), attr_value := Some b\<rparr>
                 \<and> b < length (heap w)
                 \<and> glArrayFromType (typeOrFloat a) True = Inr (arrayType (heap w ! b))"
      by simp_all
    have mem1: "(k, a1) \<in> set (attributes w1)"
      using ka1 k1 i len1 by (metis nth_mem)
    have mem: "(k, a) \<in> set (attributes w)"
      using ka i by (metis nth_mem)
    have inStore: "attr_value a = Some b \<Longrightarrow> b < length (heap w)" for b
      using bs mem by (auto simp: buffersInStore_def list_all_iff)
    have settled: "map_of bm k = None \<or> \<not> attr_needsAlloc a"
      using os mem by (auto simp: overridesSettled_def list_all_iff)
    let ?a2 = "fst (analyzeAttribute (heap w) n a1)"
    have at2: "attributes ?w2 ! i = (k, ?a2)"
      using ka1 k1 len1 i by (simp add: analyzeBuffers_attributes h1)
    show ?thesis
    proof (cases "snd (analyzeBuffers n w1)")
      case False
      then have w': "w' = ?w2" using rest by simp
      have quiet: "\<not> snd (analyzeAttribute (heap w) n a1)"
        using False mem1 unfolding analyzeBuffers_needed h1 by auto
      have hw': "heap w' = heap w" using w' by (simp add: analyzeBuffers_attributes h1)
      have "restingAttribute bm n (heap w) k ?a2"
      proof (cases "map_of bm k")
        case None
        with a1 have a1': "a1 = a\<lparr>attr_isExternalBuffer := False\<rparr>" by simp
        show ?thesis
          using quiet None inStore
          by (auto simp: a1' analyzeAttribute_def restingAttribute_def Let_def hasComputation_def
              split: option.splits if_splits)
      next
        case (Some b)
        with a1 show ?thesis
          by (simp add: analyzeAttribute_def restingAttribute_def typeOrFloat_def)
      qed
      then show ?thesis using at2 w' hw' by simp
    next
      case True
      let ?w2e = "emit StatsTimeStart (emit (OnUpdateStart n) ?w2)"
      from rest True obtain w3 where u: "updateBuffers conv n dat props ?w2e = Done w3"
        and w': "w' = emit (OnUpdateEnd n) (emit StatsTimeEnd w3)"
        by auto
      have at2e: "attributes ?w2e ! i = (k, ?a2)" "i < length (attributes ?w2e)"
        using at2 len2 i by (simp_all add: emit_def)
      have h2e: "heap ?w2e = heap w" by (simp add: emit_def analyzeBuffers_attributes h1)
      note ub = updateBuffers_Done [OF u]
      have "progress ?w2e w3" using ub by (elim conjE)
      then have grows: "storeGrows (heap w) (heap w3)" by (simp add: progress_def h2e)
      from ub
      have l3: "list_all2 (\<lambda>(k, a) (k', a'). k' = k \<and>
            (\<exists>v. a' = a\<lparr>attr_needsAlloc := False, attr_needsUpdate := False,
                         attr_changed := (attr_changed a \<or> attr_needsAlloc a \<or> attr_needsUpdate a),
                         attr_value := v\<rparr>
                 \<and> (if attr_needsAlloc a
                     then \<exists>b. v = Some b \<and> length (heap ?w2e) \<le> b \<and> b < length (heap w3)
                            \<and> length (elems (heap w3 ! b)) = nat (attr_size a * max n 1)
                            \<and> 0 \<le> attr_size a * max n 1
                            \<and> glArrayFromType (typeOrFloat a) True = Inr (arrayType (heap w3 ! b))
                     else v = attr_value a))
            \<and> ((attr_needsAlloc a \<or> attr_needsUpdate a) \<and> \<not> hasComputation a
                 \<longrightarrow> OnLog (MissingUpdate k) \<in> set (events w3))
            \<and> ((attr_needsAlloc a \<or> attr_needsUpdate a) \<longrightarrow> needsRedraw w3))
           (attributes ?w2e) (attributes w3)"
        by (elim conjE)
      obtain k3 a3 where p3: "attributes w3 ! i = (k3, a3)" by (cases "attributes w3 ! i")
      note F = list_all2_nthD [OF l3 at2e(2), unfolded at2e(1) p3 prod.case]
      from F have k3: "k3 = k" by (elim conjE)
      from F obtain v where
        a3: "a3 = ?a2\<lparr>attr_needsAlloc := False, attr_needsUpdate := False,
                         attr_changed := (attr_changed ?a2 \<or> attr_needsAlloc ?a2 \<or> attr_needsUpdate ?a2),
                         attr_value := v\<rparr>"
        and vf: "if attr_needsAlloc ?a2
                     then \<exists>b. v = Some b \<and> length (heap ?w2e) \<le> b \<and> b < length (heap w3)
                            \<and> length (elems (heap w3 ! b)) = nat (attr_size ?a2 * max n 1)
                            \<and> 0 \<le> attr_size ?a2 * max n 1
                            \<and> glArrayFromType (typeOrFloat ?a2) True = Inr (arrayType (heap w3 ! b))
                     else v = attr_value ?a2"
        by blast
      have v: "if attr_needsAlloc ?a2
                     then \<exists>b. v = Some b \<and> b < length (heap w3)
                            \<and> length (elems (heap w3 ! b)) = nat (attr_size ?a2 * max n 1)
                            \<and> 0 \<le> attr_size ?a2 * max n 1
                     else v = attr_value ?a2"
      proof (cases "attr_needsAlloc ?a2")
        case True
        with vf show ?thesis by auto
      next
        case False
        with vf show ?thesis by simp
      qed
      have hw': "heap w' = heap w3" "attributes w' = attributes w3"
        using w' by (simp_all add: emit_def)
      have "restingAttribute bm n (heap w3) k a3"
      proof (cases "map_of bm k")
        case (Some b)
        with a1 have a1': "a1 = a\<lparr>attr_isExternalBuffer := True, attr_needsUpdate := False,
                        attr_changed := (attr_changed a \<or> attr_value a \<noteq> Some b), attr_value := Some b\<rparr>"
          and b: "b < length (heap w)"
          and T: "glArrayFromType (typeOrFloat a) True = Inr (arrayType (heap w ! b))"
          by simp_all
        have a2: "?a2 = a1" by (simp add: a1' analyzeAttribute_def)
        from settled Some have "\<not> attr_needsAlloc a" by simp
        with v a2 a1' have vb: "v = Some b" by simp
        from grows b have "b < length (heap w3)" "arrayType (heap w3 ! b) = arrayType (heap w ! b)"
          by (auto simp: storeGrows_def)
        with Some a3 a2 a1' vb T show ?thesis
          by (simp add: restingAttribute_def typeOrFloat_def)
      next
        case None
        with a1 have a1': "a1 = a\<lparr>attr_isExternalBuffer := False\<rparr>" by simp
        have ext3: "\<not> attr_isExternalBuffer a3" "\<not> attr_needsUpdate a3"
          "hasComputation a3 = hasComputation a" "attr_size a3 = attr_size a" "attr_value a3 = v"
          "attr_size ?a2 = attr_size a"
          by (simp_all add: a3 a1' analyzeAttribute_def Let_def hasComputation_def)
        have cap: "\<exists>b. v = Some b \<and> b < length (heap w3) \<and> \<not> capacityBelow (heap w3) b (attr_size a) n"
          if comp: "hasComputation a"
        proof (cases "attr_needsAlloc ?a2")
          case True
          with v ext3(6) obtain b where "v = Some b" "b < length (heap w3)"
            "length (elems (heap w3 ! b)) = nat (attr_size a * max n 1)" "0 \<le> attr_size a * max n 1"
            by auto
          then show ?thesis using fresh_capacity by blast
        next
          case False
          have hc1: "hasComputation a1" using comp by (simp add: a1' hasComputation_def)
          from False hc1 obtain b where vb: "attr_value a = Some b"
            and nb: "\<not> capacityBelow (heap w) b (attr_size a) n"
            by (auto simp: a1' analyzeAttribute_def Let_def split: option.splits if_splits)
          from False hc1 nb vb have "?a2 = a1"
            by (simp add: a1' analyzeAttribute_def Let_def)
          with v False vb have "v = Some b" by (simp add: a1')
          moreover from inStore [OF vb] grows have "b < length (heap w3)"
            by (auto simp: storeGrows_def)
          moreover have "\<not> capacityBelow (heap w3) b (attr_size a) n"
            using capacityBelow_stable [OF grows inStore [OF vb]] nb by simp
          ultimately show ?thesis by blast
        qed
        show ?thesis
          using None ext3 cap by (auto simp: restingAttribute_def)
      qed
      then show ?thesis using p3 k3 hw' by simp
    qed
  qed
  show ?thesis
    unfolding atRest_def list_all_length using key len' by (simp add: case_prod_unfold)
qed

lemma resting_changed [simp]:
  "restingAttribute bm n h k (a\<lparr>attr_changed := c\<rparr>) = restingAttribute bm n h k a"
  by (simp add: restingAttribute_def hasComputation_def typeOrFloat_def split: option.split)

lemma atRest_read:
  "atRest bm n w \<Longrightarrow> atRest bm n (snd (getChangedAttributes clearChangedFlags w))"
  by (auto simp: atRest_def getChangedAttributes_def Let_def list_all_iff)

lemma checkExternalBuffers_keys:
  "map fst (attributes w') = map fst (attributes w) \<Longrightarrow>
   checkExternalBuffers bm ign w' = checkExternalBuffers bm ign w"
proof -
  assume "map fst (attributes w') = map fst (attributes w)"
  then have "fst ` set (attributes w') = fst ` set (attributes w)"
    by (metis set_map)
  then have "map_of (attributes w') k = None \<longleftrightarrow> map_of (attributes w) k = None" for k
    by (simp add: map_of_eq_None_iff)
  then show ?thesis by (simp add: checkExternalBuffers_def)
qed

text \<open>
  When an update has returned, in a state where no overridden attribute had an allocation
  pending, the same update made again (same instance count and buffers, whatever the data and
  props), after the changed flags have been read and cleared, returns the state it was given:
  the planner finds no work, no hook, updater or accessor is called, and every \<^verbatim>\<open>changed\<close> flag
  is still false.
\<close>

lemma repeated_update_is_noop:
  fixes w :: "'r world"
  assumes run: "update conv dat n props bm ign w = Done w1"
    and os: "overridesSettled bm w" and bs: "buffersInStore w"
  shows "update conv' dat' n props' bm ign (snd (getChangedAttributes True w1))
           = Done (snd (getChangedAttributes True w1))"
    and "list_all (\<lambda>(k, a). \<not> attr_changed a) (attributes (snd (getChangedAttributes True w1)))"
    and "snd (analyzeBuffers n (snd (getChangedAttributes True w1))) = False"
proof -
  let ?w = "snd (getChangedAttributes True w1)"
  have r: "atRest bm n ?w"
    using update_leaves_atRest [OF run os bs] by (rule atRest_read)
  have k1: "map fst (attributes w1) = map fst (attributes w)"
    using update_frame(1) [of conv dat n props bm ign w] run by simp
  have k2: "map fst (attributes ?w) = map fst (attributes w1)"
    by (simp add: getChangedAttributes_def Let_def comp_def case_prod_unfold)
  have "checkExternalBuffers bm ign w = None"
    using update_Done [OF run] by blast
  then have c: "checkExternalBuffers bm ign ?w = None"
    using checkExternalBuffers_keys [of ?w w bm ign] k1 k2 by simp
  show "update conv' dat' n props' bm ign ?w = Done ?w"
    using r c by (rule atRest_update)
  show "list_all (\<lambda>(k, a). \<not> attr_changed a) (attributes ?w)"
    by (auto simp: getChangedAttributes_def Let_def list_all_iff split: if_splits)
  have "analyzeAttribute (heap ?w) n a = (a, False)" if "(k, a) \<in> set (attributes ?w)" for k a
    using r that resting_analyzeAttribute [of bm n "heap ?w" k a]
    by (auto simp: atRest_def list_all_iff)
  then show "snd (analyzeBuffers n ?w) = False"
    unfolding analyzeBuffers_needed by auto
qed

end
